theory Spec2Isabelle
  imports Main "HOL-Library.Word"
begin

section \<open>The data model of rplace.cpp\<close>

text \<open>
  Every \<^verbatim>\<open>uint64_t\<close> that a caller or the clock supplies (pixel coordinates, colours,
  user ids, timestamps, grid dimensions) is a 64-bit word: arithmetic on it wraps and
  comparisons are unsigned, as in the C++. Positions in a \<^verbatim>\<open>std::vector\<close> and values
  copied from \<^verbatim>\<open>size()\<close> (both \<^verbatim>\<open>recordNumber\<close> fields, the loop counter of
  \<^verbatim>\<open>apply\<close>) are natural numbers: a vector of 48-byte updates holds far fewer than
  \<open>2^64 - 100\<close> elements, so none of \<^verbatim>\<open>i++\<close>, \<^verbatim>\<open>updates.size()\<close> and
  \<^verbatim>\<open>recordNumber + 100\<close> can wrap.
\<close>

type_synonym u64 = "64 word"

text \<open>\<^verbatim>\<open>class Pixel\<close>: the four private fields, named by their getters.\<close>

record Pixel =
  getX :: u64
  getY :: u64
  getColor :: u64
  getUserID :: u64

definition defaultColor :: u64 where
  "defaultColor = 0"

text \<open>\<^verbatim>\<open>class Update\<close>: \<^verbatim>\<open>recordNumber\<close>, \<^verbatim>\<open>timestamp\<close>, \<^verbatim>\<open>pixel\<close>.\<close>

record Update =
  upd_recordNumber :: nat
  upd_timestamp :: u64
  upd_pixel :: Pixel

text \<open>\<^verbatim>\<open>class Snapshot\<close>.\<close>

record Snapshot =
  width :: u64
  height :: u64
  pixels :: "Pixel list"
  recordNumber :: nat

text \<open>
  \<^verbatim>\<open>class Place\<close>. \<^verbatim>\<open>recentSnapshot\<close> is a \<^verbatim>\<open>shared_ptr<const Snapshot>\<close>: the object
  it points to is never written, the pointer is only replaced, so the field holds the
  snapshot's value. The mutex is not a field: a locked block runs as one step.
\<close>

record Place =
  place_width :: u64
  place_height :: u64
  mostRecentUpdatesPerUser :: "u64 \<rightharpoonup> u64"
  updates :: "Update list"
  workingSnapshot :: Snapshot
  recentSnapshot :: Snapshot

text \<open>
  Indexing a \<^verbatim>\<open>std::vector\<close> past its end is undefined behaviour; the model makes it
  a fault.
\<close>

datatype fault = OutOfRange

section \<open>Snapshot\<close>

text \<open>
  \<^verbatim>\<open>Snapshot::Snapshot(width, height)\<close>: the two nested loops push one pixel per cell,
  row by row, with the arguments \<^verbatim>\<open>(x, y, 0, Pixel::defaultColor)\<close>. The counters are
  \<^verbatim>\<open>int\<close>s in the source, compared against the unsigned dimensions; the model counts in
  \<open>nat\<close>, which agrees for dimensions up to \<^verbatim>\<open>INT_MAX\<close>.
\<close>

definition Snapshot_init :: "u64 \<Rightarrow> u64 \<Rightarrow> Snapshot" where
  "Snapshot_init w h =
     \<lparr> width = w, height = h,
       pixels = concat (map (\<lambda>y. map (\<lambda>x. \<lparr> getX = of_nat x, getY = of_nat y,
                                                getColor = 0, getUserID = defaultColor \<rparr>)
                                      [0 ..< unat w])
                            [0 ..< unat h]),
       recordNumber = 0 \<rparr>"

text \<open>The subscript of \<^verbatim>\<open>pixels[getY() * width + getX()]\<close>, computed in \<^verbatim>\<open>uint64_t\<close>.\<close>

definition cell_index :: "u64 \<Rightarrow> Pixel \<Rightarrow> nat" where
  "cell_index w p = unat (getY p * w + getX p)"

text \<open>
  The loop of \<^verbatim>\<open>Snapshot::apply\<close>:
  \<^verbatim>\<open>for (size_t i = recordNumber; i < updates.size(); i++) pixels[...] = updates[i].pixel;\<close>
\<close>

function apply_loop :: "Update list \<Rightarrow> u64 \<Rightarrow> nat \<Rightarrow> Pixel list \<Rightarrow> fault + Pixel list" where
  "apply_loop us w i ps =
     (if i < length us
      then (if cell_index w (upd_pixel (us ! i)) < length ps
            then apply_loop us w (Suc i)
                   (ps[cell_index w (upd_pixel (us ! i)) := upd_pixel (us ! i)])
            else Inl OutOfRange)
      else Inr ps)"
  by pat_completeness auto
termination
  by (relation "measure (\<lambda>(us, w, i, ps). length us - i)") auto

declare apply_loop.simps [simp del]

text \<open>\<^verbatim>\<open>Snapshot::apply(updates)\<close>: the loop, then \<^verbatim>\<open>recordNumber = updates.size()\<close>.\<close>

definition Snapshot_apply :: "Update list \<Rightarrow> Snapshot \<Rightarrow> fault + Snapshot" where
  "Snapshot_apply us s =
     (case apply_loop us (width s) (recordNumber s) (pixels s) of
        Inl e \<Rightarrow> Inl e
      | Inr ps \<Rightarrow> Inr (s\<lparr> pixels := ps, recordNumber := length us \<rparr>))"

section \<open>Place\<close>

text \<open>
  \<^verbatim>\<open>Place::Place()\<close> with the dimensions as parameters; the source fixes both to 1000
  by default member initialisers.
\<close>

definition new_Place :: "u64 \<Rightarrow> u64 \<Rightarrow> Place" where
  "new_Place w h =
     \<lparr> place_width = w, place_height = h,
       mostRecentUpdatesPerUser = Map.empty,
       updates = [],
       workingSnapshot = Snapshot_init w h,
       recentSnapshot = Snapshot_init w h \<rparr>"

definition Place_init :: Place where
  "Place_init = new_Place 1000 1000"

text \<open>
  The exclusive-lock block of \<^verbatim>\<open>Place::getCurrentState\<close> (lines 158 to 176): catch the
  working snapshot up, replace the recent snapshot by a copy of it when
  \<^verbatim>\<open>workingSnapshot.recordNumber > recentSnapshot->recordNumber + 100\<close>, and hand out the
  recent snapshot. The literal 100 is the parameter \<open>thr\<close>.
\<close>

definition refresh_with :: "nat \<Rightarrow> Place \<Rightarrow> fault + (Snapshot \<times> Place)" where
  "refresh_with thr pl =
     (case Snapshot_apply (updates pl) (workingSnapshot pl) of
        Inl e \<Rightarrow> Inl e
      | Inr ws \<Rightarrow>
          (if recordNumber ws > recordNumber (recentSnapshot pl) + thr
           then Inr (ws, pl\<lparr> workingSnapshot := ws, recentSnapshot := ws \<rparr>)
           else Inr (recentSnapshot pl, pl\<lparr> workingSnapshot := ws \<rparr>)))"

text \<open>
  \<^verbatim>\<open>Place::getCurrentState\<close>: the block above, then a private copy of the recent
  snapshot is caught up with the log under the shared lock and returned.
\<close>

definition getCurrentState_with :: "nat \<Rightarrow> Place \<Rightarrow> fault + (Snapshot \<times> Place)" where
  "getCurrentState_with thr pl =
     (case refresh_with thr pl of
        Inl e \<Rightarrow> Inl e
      | Inr (recentCopy, pl') \<Rightarrow>
          (case Snapshot_apply (updates pl') recentCopy of
             Inl e \<Rightarrow> Inl e
           | Inr returnValue \<Rightarrow> Inr (returnValue, pl')))"

definition refresh :: "Place \<Rightarrow> fault + (Snapshot \<times> Place)" where
  "refresh = refresh_with 100"

definition getCurrentState :: "Place \<Rightarrow> fault + (Snapshot \<times> Place)" where
  "getCurrentState = getCurrentState_with 100"

text \<open>
  \<^verbatim>\<open>Place::update(p)\<close>. The clock reading \<^verbatim>\<open>currentTime\<close> is an input. In the source it
  is a signed 64-bit count; \<^verbatim>\<open>currentTime - 5 * 1'000'000\<close> is converted to
  \<^verbatim>\<open>uint64_t\<close> for the comparison with the stored timestamp, which is the word
  subtraction and the unsigned order below. The literal \<^verbatim>\<open>5 * 1'000'000\<close> is the
  parameter \<open>cd\<close>.
\<close>

definition update_with :: "u64 \<Rightarrow> u64 \<Rightarrow> Pixel \<Rightarrow> Place \<Rightarrow> bool \<times> Place" where
  "update_with cd currentTime p pl =
     (if getX p \<ge> place_width pl \<or> getY p \<ge> place_height pl then (False, pl)
      else
        (case mostRecentUpdatesPerUser pl (getUserID p) of
           Some recent \<Rightarrow>
             (if recent > currentTime - cd then (False, pl)
              else (True,
                pl\<lparr> mostRecentUpdatesPerUser :=
                      (mostRecentUpdatesPerUser pl)(getUserID p \<mapsto> currentTime),
                    updates := updates pl @
                      [\<lparr> upd_recordNumber = length (updates pl),
                         upd_timestamp = currentTime, upd_pixel = p \<rparr>] \<rparr>))
         | None \<Rightarrow>
             (True,
               pl\<lparr> mostRecentUpdatesPerUser :=
                     (mostRecentUpdatesPerUser pl)(getUserID p \<mapsto> currentTime),
                   updates := updates pl @
                     [\<lparr> upd_recordNumber = length (updates pl),
                        upd_timestamp = currentTime, upd_pixel = p \<rparr>] \<rparr>)))"

definition cooldown :: u64 where
  "cooldown = 5 * 1000000"

definition update :: "u64 \<Rightarrow> Pixel \<Rightarrow> Place \<Rightarrow> bool \<times> Place" where
  "update = update_with cooldown"

section \<open>Auxiliary notions for the proofs\<close>

text \<open>
  The loop of \<^verbatim>\<open>apply\<close> only reads the updates from position \<^verbatim>\<open>recordNumber\<close> on.
  \<open>write_all\<close> is the same loop over that suffix as a list, and \<open>paint\<close> is one
  assignment \<^verbatim>\<open>pixels[...] = updates[i].pixel\<close> in range.
\<close>

fun write_all :: "u64 \<Rightarrow> Update list \<Rightarrow> Pixel list \<Rightarrow> fault + Pixel list" where
  "write_all w [] ps = Inr ps"
| "write_all w (u # us) ps =
     (if cell_index w (upd_pixel u) < length ps
      then write_all w us (ps[cell_index w (upd_pixel u) := upd_pixel u])
      else Inl OutOfRange)"

definition paint :: "u64 \<Rightarrow> Update \<Rightarrow> Pixel list \<Rightarrow> Pixel list" where
  "paint w u ps = ps[cell_index w (upd_pixel u) := upd_pixel u]"

text \<open>
  The naive reader of the specification: a full copy and a full catch-up on every read,
  that is, a blank snapshot of the place's dimensions brought up to the whole log.
\<close>

definition naive_read :: "Place \<Rightarrow> fault + Snapshot" where
  "naive_read pl =
     Snapshot_apply (updates pl) (Snapshot_init (place_width pl) (place_height pl))"

text \<open>
  The states a place can be in: a fresh place, then any sequence of calls of
  \<^verbatim>\<open>update\<close> (any pixel, any clock reading, any cooldown) and of
  \<^verbatim>\<open>getCurrentState\<close> (any republish threshold).
\<close>

inductive reachable :: "Place \<Rightarrow> bool" where
  fresh: "reachable (new_Place w h)"
| written: "reachable pl \<Longrightarrow> reachable (snd (update_with cd currentTime p pl))"
| read: "reachable pl \<Longrightarrow> getCurrentState_with thr pl = Inr (s, pl') \<Longrightarrow> reachable pl'"

text \<open>
  What other threads can do to a place between the two locked blocks of one
  \<^verbatim>\<open>getCurrentState\<close>: nothing, an \<^verbatim>\<open>update\<close>, or the exclusive block of another
  \<^verbatim>\<open>getCurrentState\<close> (the shared block of a reader changes nothing of the place).
\<close>

inductive evolves :: "Place \<Rightarrow> Place \<Rightarrow> bool" where
  same: "evolves pl pl"
| written: "evolves pl pl' \<Longrightarrow> evolves pl (snd (update_with cd currentTime p pl'))"
| refreshed: "evolves pl pl' \<Longrightarrow> refresh_with thr pl' = Inr (rc, pl'') \<Longrightarrow> evolves pl pl''"

text \<open>
  A snapshot is caught up to its own \<open>recordNumber\<close> when it is what a blank snapshot
  becomes after exactly that many updates of the log.
\<close>

definition caught_up :: "u64 \<Rightarrow> u64 \<Rightarrow> Update list \<Rightarrow> Snapshot \<Rightarrow> bool" where
  "caught_up w h us s \<longleftrightarrow>
     recordNumber s \<le> length us \<and>
     Snapshot_apply (take (recordNumber s) us) (Snapshot_init w h) = Inr s"

definition in_grid :: "u64 \<Rightarrow> u64 \<Rightarrow> Pixel \<Rightarrow> bool" where
  "in_grid w h p \<longleftrightarrow> getX p < w \<and> getY p < h"

definition place_inv :: "Place \<Rightarrow> bool" where
  "place_inv pl \<longleftrightarrow>
     (\<forall>u \<in> set (updates pl). in_grid (place_width pl) (place_height pl) (upd_pixel u)) \<and>
     map upd_recordNumber (updates pl) = [0 ..< length (updates pl)] \<and>
     caught_up (place_width pl) (place_height pl) (updates pl) (workingSnapshot pl) \<and>
     caught_up (place_width pl) (place_height pl) (updates pl) (recentSnapshot pl)"

text \<open>The two pixels of the end-to-end scenario: cell (1,1), colours 5 and 9, writer 7.\<close>

definition px5 :: Pixel where
  "px5 = \<lparr> getX = 1, getY = 1, getColor = 5, getUserID = 7 \<rparr>"

definition px9 :: Pixel where
  "px9 = \<lparr> getX = 1, getY = 1, getColor = 9, getUserID = 7 \<rparr>"

text \<open>A log of the two scenario writes, both to cell (1,1).\<close>

definition log59 :: "Update list" where
  "log59 = [\<lparr> upd_recordNumber = 0, upd_timestamp = 0, upd_pixel = px5 \<rparr>,
            \<lparr> upd_recordNumber = 1, upd_timestamp = 300000000, upd_pixel = px9 \<rparr>]"

text \<open>
  Two states of a 3 by 3 place: after writer 7 has set cell (1,1) to colour 5 at clock
  reading 0, and after the same writer has set it to colour 9 one cooldown later.
\<close>

definition place1 :: Place where
  "place1 = snd (update 0 px5 (new_Place 3 3))"

definition place2 :: Place where
  "place2 = snd (update 5000000 px9 place1)"

text \<open>
  A 3 by 3 place after one hundred accepted writes: writer 7 sets cell (1,1) once per
  cooldown, at the clock readings \<open>0, 5000000, ..., 99 * 5000000\<close>, and nobody has read.
\<close>

definition place100 :: Place where
  "place100 = fold (\<lambda>i pl. snd (update (of_nat i * 5000000) px5 pl)) [0 ..< 100] (new_Place 3 3)"

text \<open>
  A 3 by 3 place in which writer 7 has written at clock reading 10000000, and a pixel
  outside that grid from a writer who has not written.
\<close>

definition place_a :: Place where
  "place_a = snd (update 10000000 px5 (new_Place 3 3))"

definition px_out :: Pixel where
  "px_out = \<lparr> getX = 3, getY = 1, getColor = 9, getUserID = 8 \<rparr>"

section \<open>The loop of apply\<close>

lemma apply_loop_write_all: "apply_loop us w i ps = write_all w (drop i us) ps"
proof (induction us w i ps rule: apply_loop.induct)
  case (1 us w i ps)
  show ?case
  proof (cases "i < length us")
    case True
    then have d: "drop i us = us ! i # drop (Suc i) us"
      by (simp add: Cons_nth_drop_Suc)
    show ?thesis
    proof (cases "cell_index w (upd_pixel (us ! i)) < length ps")
      case True
      with \<open>i < length us\<close> "1.IH" show ?thesis
        by (subst apply_loop.simps) (simp add: d)
    next
      case False
      with \<open>i < length us\<close> show ?thesis
        by (subst apply_loop.simps) (simp add: d)
    qed
  next
    case False
    then show ?thesis
      by (subst apply_loop.simps) simp
  qed
qed

lemma write_all_append:
  "write_all w (xs @ ys) ps =
     (case write_all w xs ps of Inl e \<Rightarrow> Inl e | Inr ps' \<Rightarrow> write_all w ys ps')"
  by (induction xs arbitrary: ps) auto

lemma write_all_length: "write_all w us ps = Inr ps' \<Longrightarrow> length ps' = length ps"
  by (induction us arbitrary: ps) (auto split: if_splits)

lemma write_all_fold:
  "\<forall>u \<in> set us. cell_index w (upd_pixel u) < length ps \<Longrightarrow>
   write_all w us ps = Inr (fold (paint w) us ps)"
  by (induction us arbitrary: ps) (auto simp: paint_def)

lemma write_all_Inr_iff:
  "(\<exists>ps'. write_all w us ps = Inr ps') \<longleftrightarrow>
   (\<forall>u \<in> set us. cell_index w (upd_pixel u) < length ps)"
  by (induction us arbitrary: ps) (auto split: if_splits)

lemma fold_paint_length: "length (fold (paint w) us ps) = length ps"
  by (induction us arbitrary: ps) (auto simp: paint_def)

lemma fold_paint_untouched:
  "\<forall>u \<in> set us. cell_index w (upd_pixel u) \<noteq> j \<Longrightarrow> fold (paint w) us ps ! j = ps ! j"
  by (induction us arbitrary: ps) (auto simp: paint_def)

lemma fold_paint_last:
  "j < length ps \<Longrightarrow> cell_index w (upd_pixel u) = j \<Longrightarrow>
   \<forall>v \<in> set vs. cell_index w (upd_pixel v) \<noteq> j \<Longrightarrow>
   fold (paint w) (us @ u # vs) ps ! j = upd_pixel u"
  by (simp add: fold_paint_untouched paint_def fold_paint_length)

lemma cell_index_bound:
  assumes "getX p < w" "getY p < h"
  shows "cell_index w p < unat w * unat h"
proof -
  have x: "unat (getX p) < unat w" and y: "unat (getY p) < unat h"
    using assms by (simp_all add: word_less_nat_alt)
  have "cell_index w p \<le> unat (getY p) * unat w + unat (getX p)"
    by (simp add: cell_index_def unat_word_ariths)
  also have "\<dots> < Suc (unat (getY p)) * unat w"
    using x by simp
  also have "\<dots> \<le> unat h * unat w"
    using y by (intro mult_le_mono1) simp
  finally show ?thesis by (simp add: mult.commute)
qed

lemma Snapshot_init_length: "length (pixels (Snapshot_init w h)) = unat w * unat h"
  by (simp add: Snapshot_init_def length_concat comp_def sum_list_triv mult.commute)

lemma drop_take_nth:
  "r \<le> k \<Longrightarrow> k \<le> length L \<Longrightarrow> n < k - r \<Longrightarrow> drop r (take k L) ! n = L ! (r + n)"
  by simp

lemma set_drop_take:
  assumes "r \<le> k" "k \<le> length L"
  shows "set (drop r (take k L)) = {L ! i | i. r \<le> i \<and> i < k}"
proof -
  have len: "length (drop r (take k L)) = k - r"
    using assms by simp
  show ?thesis
  proof (rule set_eqI, rule iffI)
    fix u assume "u \<in> set (drop r (take k L))"
    then obtain n where n: "n < k - r" "drop r (take k L) ! n = u"
      unfolding in_set_conv_nth len by blast
    with assms have "u = L ! (r + n)" "r \<le> r + n" "r + n < k"
      by auto
    then show "u \<in> {L ! i | i. r \<le> i \<and> i < k}" by blast
  next
    fix u assume "u \<in> {L ! i | i. r \<le> i \<and> i < k}"
    then obtain i where i: "r \<le> i" "i < k" "u = L ! i" by blast
    with assms have "i - r < k - r" "drop r (take k L) ! (i - r) = u"
      by auto
    then show "u \<in> set (drop r (take k L))"
      unfolding in_set_conv_nth len by blast
  qed
qed

lemma fold_paint_range_last:
  assumes rk: "r \<le> k" "k \<le> length L" and i: "r \<le> i" "i < k"
    and j: "cell_index w (upd_pixel (L ! i)) < length ps"
    and later: "\<forall>i'. i < i' \<and> i' < k \<longrightarrow>
                 cell_index w (upd_pixel (L ! i')) \<noteq> cell_index w (upd_pixel (L ! i))"
  shows "fold (paint w) (drop r (take k L)) ps ! cell_index w (upd_pixel (L ! i)) = upd_pixel (L ! i)"
proof -
  let ?D = "drop r (take k L)"
  have len: "length ?D = k - r" using rk by simp
  have n: "i - r < length ?D" using i len by simp
  have split: "?D = take (i - r) ?D @ ?D ! (i - r) # drop (Suc (i - r)) ?D"
    using n by (rule id_take_nth_drop)
  have at: "?D ! (i - r) = L ! i" using rk i by simp
  have rest: "drop (Suc (i - r)) ?D = drop (Suc i) (take k L)"
    using i by simp
  have eq: "?D = take (i - r) ?D @ L ! i # drop (Suc i) (take k L)"
    by (metis split at rest)
  have "set (drop (Suc i) (take k L)) = {L ! i' | i'. Suc i \<le> i' \<and> i' < k}"
    using i rk by (intro set_drop_take) simp_all
  with later have nx: "\<forall>v \<in> set (drop (Suc i) (take k L)).
      cell_index w (upd_pixel v) \<noteq> cell_index w (upd_pixel (L ! i))"
    by auto
  show ?thesis
    by (subst eq) (rule fold_paint_last [OF j refl nx])
qed

section \<open>The invariant of a place\<close>

lemma Snapshot_apply_Inr:
  "Snapshot_apply us s = Inr s' \<longleftrightarrow>
   (\<exists>ps. write_all (width s) (drop (recordNumber s) us) (pixels s) = Inr ps \<and>
         s' = s\<lparr> pixels := ps, recordNumber := length us \<rparr>)"
  by (auto simp: Snapshot_apply_def apply_loop_write_all split: sum.splits)

lemma in_grid_index:
  "in_grid w h p \<Longrightarrow> cell_index w p < unat w * unat h"
  by (simp add: in_grid_def cell_index_bound)

lemma naive_apply:
  assumes "\<forall>u \<in> set us. in_grid w h (upd_pixel u)"
  shows "Snapshot_apply us (Snapshot_init w h) =
         Inr ((Snapshot_init w h)\<lparr> pixels := fold (paint w) us (pixels (Snapshot_init w h)),
                                    recordNumber := length us \<rparr>)"
proof -
  from assms have "\<forall>u \<in> set us. cell_index w (upd_pixel u) < length (pixels (Snapshot_init w h))"
    by (simp add: Snapshot_init_length in_grid_index)
  from write_all_fold [OF this] show ?thesis
    by (simp add: Snapshot_apply_Inr) (simp add: Snapshot_init_def)
qed

lemma caught_up_fields:
  assumes "caught_up w h us s"
  shows "width s = w" "height s = h" "recordNumber s \<le> length us"
    "write_all w (take (recordNumber s) us) (pixels (Snapshot_init w h)) = Inr (pixels s)"
    "length (pixels s) = unat w * unat h"
proof -
  from assms have le: "recordNumber s \<le> length us"
    and ap: "Snapshot_apply (take (recordNumber s) us) (Snapshot_init w h) = Inr s"
    by (simp_all add: caught_up_def)
  from ap obtain ps where
    ps: "write_all (width (Snapshot_init w h)) (drop (recordNumber (Snapshot_init w h)) (take (recordNumber s) us))
           (pixels (Snapshot_init w h)) = Inr ps"
    and s: "s = (Snapshot_init w h)\<lparr> pixels := ps, recordNumber := length (take (recordNumber s) us) \<rparr>"
    unfolding Snapshot_apply_Inr by blast
  have w0: "width (Snapshot_init w h) = w" "height (Snapshot_init w h) = h"
    "recordNumber (Snapshot_init w h) = 0"
    by (simp_all add: Snapshot_init_def)
  from arg_cong [OF s, of width] have sw: "width s = w" by (simp add: w0)
  from arg_cong [OF s, of height] have sh: "height s = h" by (simp add: w0)
  from arg_cong [OF s, of pixels] have sp: "pixels s = ps" by simp
  show "width s = w" "height s = h" "recordNumber s \<le> length us"
    by (fact sw sh le)+
  from ps show wa: "write_all w (take (recordNumber s) us) (pixels (Snapshot_init w h)) = Inr (pixels s)"
    by (simp add: w0 sp)
  from write_all_length [OF wa] show "length (pixels s) = unat w * unat h"
    by (simp add: Snapshot_init_length)
qed

lemma caught_up_apply:
  assumes "caught_up w h us s"
  shows "Snapshot_apply us s = Snapshot_apply us (Snapshot_init w h)"
proof -
  note f = caught_up_fields [OF assms]
  let ?r = "recordNumber s" and ?s0 = "Snapshot_init w h"
  have w0: "width ?s0 = w" "height ?s0 = h" "recordNumber ?s0 = 0"
    by (simp_all add: Snapshot_init_def)
  have "write_all w us (pixels ?s0) = write_all w (take ?r us @ drop ?r us) (pixels ?s0)"
    by simp
  also have "\<dots> = write_all w (drop ?r us) (pixels s)"
    by (simp only: write_all_append f(4) sum.case)
  finally have loop: "write_all w us (pixels ?s0) = write_all w (drop ?r us) (pixels s)" .
  have s: "s = ?s0\<lparr> pixels := pixels s, recordNumber := ?r \<rparr>"
    by (rule Snapshot.equality) (simp_all add: f(1,2) w0)
  have "s\<lparr> pixels := ps, recordNumber := n \<rparr> = ?s0\<lparr> pixels := ps, recordNumber := n \<rparr>" for ps n
    by (subst s) simp
  then show ?thesis
    by (simp add: Snapshot_apply_def apply_loop_write_all f(1) w0 loop split: sum.splits)
qed

lemma caught_up_blank: "caught_up w h [] (Snapshot_init w h)"
  by (simp add: caught_up_def Snapshot_apply_Inr) (simp add: Snapshot_init_def)

lemma caught_up_snoc: "caught_up w h us s \<Longrightarrow> caught_up w h (us @ [u]) s"
  by (simp add: caught_up_def)

lemma caught_up_whole:
  assumes "Snapshot_apply us (Snapshot_init w h) = Inr s"
  shows "caught_up w h us s" "recordNumber s = length us"
proof -
  from assms show r: "recordNumber s = length us"
    by (auto simp: Snapshot_apply_Inr)
  with assms show "caught_up w h us s"
    by (simp add: caught_up_def)
qed

lemma place_inv_fresh: "place_inv (new_Place w h)"
  by (simp add: place_inv_def new_Place_def caught_up_blank)

lemma update_with_cases:
  "update_with cd t p pl = (False, pl) \<or>
   (getX p < place_width pl \<and> getY p < place_height pl \<and>
    update_with cd t p pl =
      (True, pl\<lparr> mostRecentUpdatesPerUser := (mostRecentUpdatesPerUser pl)(getUserID p \<mapsto> t),
                 updates := updates pl @
                   [\<lparr> upd_recordNumber = length (updates pl), upd_timestamp = t, upd_pixel = p \<rparr>] \<rparr>))"
  by (auto simp: update_with_def not_le split: option.splits)

lemma place_inv_update:
  assumes "place_inv pl"
  shows "place_inv (snd (update_with cd t p pl))"
  using update_with_cases [of cd t p pl]
proof (elim disjE conjE)
  assume "update_with cd t p pl = (False, pl)"
  with assms show ?thesis by simp
next
  assume "getX p < place_width pl" "getY p < place_height pl"
    and "update_with cd t p pl =
      (True, pl\<lparr> mostRecentUpdatesPerUser := (mostRecentUpdatesPerUser pl)(getUserID p \<mapsto> t),
                 updates := updates pl @
                   [\<lparr> upd_recordNumber = length (updates pl), upd_timestamp = t, upd_pixel = p \<rparr>] \<rparr>)"
  with assms show ?thesis
    by (simp add: place_inv_def caught_up_snoc in_grid_def)
qed

lemma place_inv_naive:
  assumes "place_inv pl"
  shows "\<exists>s. naive_read pl = Inr s"
  using assms naive_apply [of "updates pl" "place_width pl" "place_height pl"]
  by (simp add: place_inv_def naive_read_def)

lemma getCurrentState_naive:
  assumes inv: "place_inv pl" and n: "naive_read pl = Inr s"
  shows "getCurrentState_with thr pl =
           Inr (s, pl\<lparr> workingSnapshot := s,
                       recentSnapshot := (if length (updates pl) > recordNumber (recentSnapshot pl) + thr
                                          then s else recentSnapshot pl) \<rparr>)"
proof -
  let ?w = "place_width pl" and ?h = "place_height pl" and ?us = "updates pl"
  from inv have cw: "caught_up ?w ?h ?us (workingSnapshot pl)"
    and cr: "caught_up ?w ?h ?us (recentSnapshot pl)"
    by (simp_all add: place_inv_def)
  from n have n': "Snapshot_apply ?us (Snapshot_init ?w ?h) = Inr s"
    by (simp add: naive_read_def)
  have a1: "Snapshot_apply ?us (workingSnapshot pl) = Inr s"
    by (simp add: caught_up_apply [OF cw] n')
  have a2: "Snapshot_apply ?us (recentSnapshot pl) = Inr s"
    by (simp add: caught_up_apply [OF cr] n')
  have a3: "Snapshot_apply ?us s = Inr s"
    by (simp add: caught_up_apply [OF caught_up_whole(1) [OF n']] n')
  have r: "recordNumber s = length ?us"
    by (rule caught_up_whole(2) [OF n'])
  show ?thesis
    by (simp add: getCurrentState_with_def refresh_with_def a1 a2 a3 r)
qed

lemma place_inv_read:
  assumes inv: "place_inv pl" and g: "getCurrentState_with thr pl = Inr (s, pl')"
  shows "place_inv pl'"
proof -
  from place_inv_naive [OF inv] obtain s0 where n: "naive_read pl = Inr s0" ..
  then have c: "caught_up (place_width pl) (place_height pl) (updates pl) s0"
    by (simp add: naive_read_def caught_up_whole(1))
  from getCurrentState_naive [OF inv n, of thr] g
  have "pl' = pl\<lparr> workingSnapshot := s0,
                   recentSnapshot := (if length (updates pl) > recordNumber (recentSnapshot pl) + thr
                                      then s0 else recentSnapshot pl) \<rparr>"
    by simp
  with inv c show ?thesis
    by (simp add: place_inv_def)
qed

lemma reachable_inv: "reachable pl \<Longrightarrow> place_inv pl"
  by (induction rule: reachable.induct)
     (simp_all add: place_inv_fresh place_inv_update place_inv_read)

lemma caught_up_append: "caught_up w h us s \<Longrightarrow> caught_up w h (us @ vs) s"
  by (simp add: caught_up_def)

lemma refresh_naive:
  assumes inv: "place_inv pl" and n: "naive_read pl = Inr s"
  shows "refresh_with thr pl =
           Inr (if length (updates pl) > recordNumber (recentSnapshot pl) + thr
                then s else recentSnapshot pl,
                pl\<lparr> workingSnapshot := s,
                    recentSnapshot := (if length (updates pl) > recordNumber (recentSnapshot pl) + thr
                                       then s else recentSnapshot pl) \<rparr>)"
proof -
  let ?w = "place_width pl" and ?h = "place_height pl" and ?us = "updates pl"
  from inv have cw: "caught_up ?w ?h ?us (workingSnapshot pl)"
    by (simp add: place_inv_def)
  from n have n': "Snapshot_apply ?us (Snapshot_init ?w ?h) = Inr s"
    by (simp add: naive_read_def)
  have a1: "Snapshot_apply ?us (workingSnapshot pl) = Inr s"
    by (simp add: caught_up_apply [OF cw] n')
  have r: "recordNumber s = length ?us"
    by (rule caught_up_whole(2) [OF n'])
  show ?thesis
    by (simp add: refresh_with_def a1 r)
qed

lemma refresh_is_read_step:
  assumes inv: "place_inv pl" and r: "refresh_with thr pl = Inr (rc, pl')"
  shows "\<exists>s. getCurrentState_with thr pl = Inr (s, pl')"
proof -
  from place_inv_naive [OF inv] obtain s where n: "naive_read pl = Inr s" ..
  from refresh_naive [OF inv n, of thr] r getCurrentState_naive [OF inv n, of thr]
  show ?thesis by auto
qed

lemma evolves_reachable: "evolves pl pl' \<Longrightarrow> reachable pl \<Longrightarrow> reachable pl'"
proof (induction rule: evolves.induct)
  case (same pl)
  then show ?case .
next
  case (written pl pl' cd currentTime p)
  then show ?case by (simp add: reachable.written)
next
  case (refreshed pl pl' thr rc pl'')
  then have "reachable pl'" by simp
  from refresh_is_read_step [OF reachable_inv [OF this] refreshed.hyps(2)]
  obtain s where "getCurrentState_with thr pl' = Inr (s, pl'')" ..
  with \<open>reachable pl'\<close> show ?case by (rule reachable.read)
qed

lemma evolves_log:
  "evolves pl pl' \<Longrightarrow>
   place_width pl' = place_width pl \<and> place_height pl' = place_height pl \<and>
   (\<exists>vs. updates pl' = updates pl @ vs)"
proof (induction rule: evolves.induct)
  case (same pl)
  then show ?case by simp
next
  case (written pl pl' cd currentTime p)
  with update_with_cases [of cd currentTime p pl'] show ?case by auto
next
  case (refreshed pl pl' thr rc pl'')
  from refreshed.hyps(2) have "place_width pl'' = place_width pl' \<and>
      place_height pl'' = place_height pl' \<and> updates pl'' = updates pl'"
    by (auto simp: refresh_with_def split: sum.splits if_splits)
  with refreshed.IH show ?case by simp
qed

section \<open>The cells of a blank snapshot\<close>

lemma concat_grid_length: "length (concat (map (\<lambda>y. map (f y) [0 ..< W]) [0 ..< H])) = W * H"
  by (simp add: length_concat comp_def sum_list_triv mult.commute)

lemma div_mod_row:
  fixes j W H :: nat
  assumes "W * H \<le> j" "j < W * H + W"
  shows "j div W = H" "j mod W = j - W * H"
proof -
  define k where "k = j - W * H"
  with assms have k: "k < W" and j: "j = k + H * W" by (simp_all add: mult.commute)
  show "j div W = H" unfolding j using k by simp
  show "j mod W = j - W * H" unfolding j using k by simp
qed

lemma concat_grid_Suc:
  "concat (map (\<lambda>y. map (f y) [0 ..< W]) [0 ..< Suc H]) =
   concat (map (\<lambda>y. map (f y) [0 ..< W]) [0 ..< H]) @ map (f H) [0 ..< W]"
  by simp

lemma concat_grid_nth:
  "j < W * H \<Longrightarrow> concat (map (\<lambda>y. map (f y) [0 ..< W]) [0 ..< H]) ! j = f (j div W) (j mod W)"
proof (induction H)
  case 0
  then show ?case by simp
next
  case (Suc H)
  let ?g = "concat (map (\<lambda>y. map (f y) [0 ..< W]) [0 ..< H])"
  have len: "length ?g = W * H" by (rule concat_grid_length)
  show ?case
  proof (cases "j < W * H")
    case True
    then have "(?g @ map (f H) [0 ..< W]) ! j = ?g ! j"
      by (simp only: nth_append len if_True)
    with Suc.IH [OF True] show ?thesis
      by (simp only: concat_grid_Suc)
  next
    case False
    with Suc.prems have b: "W * H \<le> j" "j < W * H + W" by simp_all
    then have k: "j - W * H < W" by simp
    have "(?g @ map (f H) [0 ..< W]) ! j = map (f H) [0 ..< W] ! (j - W * H)"
      using False by (simp only: nth_append len if_False)
    also have "\<dots> = f H (j - W * H)"
      using k by simp
    finally show ?thesis
      by (simp only: concat_grid_Suc div_mod_row [OF b])
  qed
qed

lemma blank_nth:
  assumes "j < unat w * unat h"
  shows "pixels (Snapshot_init w h) ! j =
     \<lparr> getX = of_nat (j mod unat w), getY = of_nat (j div unat w),
       getColor = 0, getUserID = defaultColor \<rparr>"
proof -
  have "pixels (Snapshot_init w h) =
        concat (map (\<lambda>y. map (\<lambda>x. \<lparr> getX = of_nat x, getY = of_nat y,
                                        getColor = 0, getUserID = defaultColor \<rparr>)
                              [0 ..< unat w]) [0 ..< unat h])"
    by (simp add: Snapshot_init_def)
  then show ?thesis
    by (simp only: concat_grid_nth [OF assms])
qed

section \<open>Two concrete reachable places\<close>

lemma reachable_place1: "reachable place1"
  unfolding place1_def update_def by (intro reachable.written reachable.fresh)

lemma reachable_place2: "reachable place2"
  unfolding place2_def update_def by (intro reachable.written reachable_place1)

lemma updates_place1:
  "updates place1 = [\<lparr> upd_recordNumber = 0, upd_timestamp = 0, upd_pixel = px5 \<rparr>]"
  by code_simp

lemma updates_place2:
  "updates place2 = [\<lparr> upd_recordNumber = 0, upd_timestamp = 0, upd_pixel = px5 \<rparr>,
                     \<lparr> upd_recordNumber = 1, upd_timestamp = 5000000, upd_pixel = px9 \<rparr>]"
  by code_simp

section \<open>The place after one hundred writes\<close>

lemma reachable_fold_update:
  "reachable pl \<Longrightarrow> reachable (fold (\<lambda>i pl. snd (update (f i) (g i) pl)) is pl)"
  by (induction "is" arbitrary: pl) (simp_all add: update_def reachable.written)

lemma reachable_place100: "reachable place100"
  unfolding place100_def by (intro reachable_fold_update reachable.fresh)

lemma update_with_snapshots:
  "workingSnapshot (snd (update_with cd t p pl)) = workingSnapshot pl \<and>
   recentSnapshot (snd (update_with cd t p pl)) = recentSnapshot pl"
  using update_with_cases [of cd t p pl] by auto

lemma fold_update_snapshots:
  "workingSnapshot (fold (\<lambda>i pl. snd (update (f i) (g i) pl)) is pl) = workingSnapshot pl \<and>
   recentSnapshot (fold (\<lambda>i pl. snd (update (f i) (g i) pl)) is pl) = recentSnapshot pl"
  by (induction "is" arbitrary: pl) (simp_all add: update_def update_with_snapshots)

lemma snapshots_place100:
  "workingSnapshot place100 = Snapshot_init 3 3" "recentSnapshot place100 = Snapshot_init 3 3"
  unfolding place100_def by (simp_all add: fold_update_snapshots new_Place_def)

lemma updates_place100:
  "updates place100 =
     map (\<lambda>i. \<lparr> upd_recordNumber = i, upd_timestamp = of_nat i * 5000000, upd_pixel = px5 \<rparr>)
       [0 ..< 100]"
  by code_simp

lemma apply_place100:
  "Snapshot_apply (updates place100) (Snapshot_init 3 3) =
     Inr ((Snapshot_init 3 3)\<lparr> pixels := (pixels (Snapshot_init 3 3))[4 := px5],
                               recordNumber := 100 \<rparr>)"
  unfolding updates_place100 by code_simp

lemma refresh_place100:
  "refresh place100 =
     Inr (Snapshot_init 3 3,
          place100\<lparr> workingSnapshot :=
            (Snapshot_init 3 3)\<lparr> pixels := (pixels (Snapshot_init 3 3))[4 := px5],
                                  recordNumber := 100 \<rparr> \<rparr>)"
  by (simp add: refresh_def refresh_with_def snapshots_place100 apply_place100)

section \<open>The cooldown test\<close>

text \<open>
  The test \<^verbatim>\<open>recentUdpateIt->second > currentTime - 5 * 1'000'000\<close> is the word comparison
  \<open>now - cd < prev\<close>. As long as the clock reading is at least the cooldown the
  subtraction does not wrap, and the test says that less than a cooldown has passed
  since the writer's last accepted write.
\<close>

lemma cooldown_test_no_wrap:
  fixes now cd prev :: u64
  assumes "unat cd \<le> unat now"
  shows "now - cd < prev \<longleftrightarrow> unat now < unat prev + unat cd"
proof -
  from assms have "cd \<le> now" by (simp add: word_le_nat_alt)
  then have "unat (now - cd) = unat now - unat cd" by (rule unat_sub)
  with assms show ?thesis by (simp add: word_less_nat_alt) arith
qed

lemma update_with_first:
  assumes "getX p < place_width pl" "getY p < place_height pl"
    and "mostRecentUpdatesPerUser pl (getUserID p) = None"
  shows "update_with cd now p pl =
     (True, pl\<lparr> mostRecentUpdatesPerUser := (mostRecentUpdatesPerUser pl)(getUserID p \<mapsto> now),
                updates := updates pl @
                  [\<lparr> upd_recordNumber = length (updates pl), upd_timestamp = now, upd_pixel = p \<rparr>] \<rparr>)"
  using assms by (simp add: update_with_def not_le [symmetric])

lemma update_with_again:
  assumes "getX p < place_width pl" "getY p < place_height pl"
    and "mostRecentUpdatesPerUser pl (getUserID p) = Some prev"
  shows "update_with cd now p pl =
     (if now - cd < prev then (False, pl)
      else (True, pl\<lparr> mostRecentUpdatesPerUser := (mostRecentUpdatesPerUser pl)(getUserID p \<mapsto> now),
                updates := updates pl @
                  [\<lparr> upd_recordNumber = length (updates pl), upd_timestamp = now, upd_pixel = p \<rparr>] \<rparr>))"
  using assms by (simp add: update_with_def not_le [symmetric])

lemma admission_no_wrap:
  assumes "getX p < place_width pl" "getY p < place_height pl"
    and "mostRecentUpdatesPerUser pl (getUserID p) = Some prev"
    and "unat cd \<le> unat now"
  shows "update_with cd now p pl =
     (if unat now < unat prev + unat cd then (False, pl)
      else (True, pl\<lparr> mostRecentUpdatesPerUser := (mostRecentUpdatesPerUser pl)(getUserID p \<mapsto> now),
                updates := updates pl @
                  [\<lparr> upd_recordNumber = length (updates pl), upd_timestamp = now, upd_pixel = p \<rparr>] \<rparr>))"
  by (simp only: update_with_again [OF assms(1-3)] cooldown_test_no_wrap [OF assms(4)])

lemma blank33:
  "Snapshot_init 3 3 =
     \<lparr> width = 3, height = 3,
       pixels = [\<lparr> getX = 0, getY = 0, getColor = 0, getUserID = 0 \<rparr>,
                 \<lparr> getX = 1, getY = 0, getColor = 0, getUserID = 0 \<rparr>,
                 \<lparr> getX = 2, getY = 0, getColor = 0, getUserID = 0 \<rparr>,
                 \<lparr> getX = 0, getY = 1, getColor = 0, getUserID = 0 \<rparr>,
                 \<lparr> getX = 1, getY = 1, getColor = 0, getUserID = 0 \<rparr>,
                 \<lparr> getX = 2, getY = 1, getColor = 0, getUserID = 0 \<rparr>,
                 \<lparr> getX = 0, getY = 2, getColor = 0, getUserID = 0 \<rparr>,
                 \<lparr> getX = 1, getY = 2, getColor = 0, getUserID = 0 \<rparr>,
                 \<lparr> getX = 2, getY = 2, getColor = 0, getUserID = 0 \<rparr>],
       recordNumber = 0 \<rparr>"
  by code_simp

lemma scenario_clock:
  fixes t0 cd :: u64
  assumes "1000000 < unat cd" "unat cd \<le> 301000000"
    and "unat cd \<le> unat t0 + 1000000" "unat t0 + 301000000 < 2 ^ 64"
  shows "t0 + 1000000 - cd < t0" "\<not> t0 + 301000000 - cd < t0"
proof -
  have a: "unat (t0 + 1000000) = unat t0 + 1000000"
    using assms(4) by (simp add: unat_word_ariths)
  have b: "unat (t0 + 301000000) = unat t0 + 301000000"
    using assms(4) by (simp add: unat_word_ariths)
  have "unat cd \<le> unat (t0 + 1000000)" using assms(3) a by simp
  from cooldown_test_no_wrap [OF this, of t0] show "t0 + 1000000 - cd < t0"
    using assms(1) a by simp
  have "unat cd \<le> unat (t0 + 301000000)" using assms(2) b by simp
  from cooldown_test_no_wrap [OF this, of t0] show "\<not> t0 + 301000000 - cd < t0"
    using assms(2) b by simp
qed

lemma place_a_facts:
  "place_width place_a = 3" "place_height place_a = 3"
  "mostRecentUpdatesPerUser place_a 7 = Some 10000000"
  "mostRecentUpdatesPerUser place_a 8 = None"
  "updates place_a = [\<lparr> upd_recordNumber = 0, upd_timestamp = 10000000, upd_pixel = px5 \<rparr>]"
  by (simp_all add: place_a_def update_def update_with_def new_Place_def px5_def word_le_nat_alt)

section \<open>Claims about Snapshot::apply\<close>

text \<open>
  C3. Calling \<^verbatim>\<open>apply\<close> a second time with the same log leaves the snapshot as the first
  call left it: the first call sets \<open>recordNumber\<close> to the length of the log, so the loop
  of the second call starts at the end of the log, runs no iteration and returns the
  pixels as they are, and \<open>recordNumber\<close> is assigned the value it already has. The
  source's \<^verbatim>\<open>apply\<close> has no upper bound argument: it always runs to the end of the vector
  it is given, so applying up to \<open>k\<close> is \<^verbatim>\<open>apply\<close> on the first \<open>k\<close> entries, which
  \<open>us\<close> covers.
\<close>

theorem apply_twice:
  assumes "Snapshot_apply us s = Inr s'"
  shows "Snapshot_apply us s' = Inr s' \<and>
         recordNumber s' = length us \<and>
         apply_loop us (width s') (recordNumber s') (pixels s') = Inr (pixels s')"
proof -
  from assms have r: "recordNumber s' = length us"
    by (auto simp: Snapshot_apply_def split: sum.splits)
  have l: "apply_loop us (width s') (recordNumber s') (pixels s') = Inr (pixels s')"
    by (simp add: r apply_loop_write_all)
  from l r have "Snapshot_apply us s' = Inr s'"
    by (simp add: Snapshot_apply_def)
  with r l show ?thesis by simp
qed

theorem apply_twice_witness:
  "Snapshot_apply [\<lparr> upd_recordNumber = 0, upd_timestamp = 0, upd_pixel = px5 \<rparr>]
     (Snapshot_init 2 2) =
     Inr \<lparr> width = 2, height = 2,
           pixels = [\<lparr> getX = 0, getY = 0, getColor = 0, getUserID = 0 \<rparr>,
                     \<lparr> getX = 1, getY = 0, getColor = 0, getUserID = 0 \<rparr>,
                     \<lparr> getX = 0, getY = 1, getColor = 0, getUserID = 0 \<rparr>,
                     px5],
           recordNumber = 1 \<rparr> \<and>
   Snapshot_apply [\<lparr> upd_recordNumber = 0, upd_timestamp = 0, upd_pixel = px5 \<rparr>]
     \<lparr> width = 2, height = 2,
       pixels = [\<lparr> getX = 0, getY = 0, getColor = 0, getUserID = 0 \<rparr>,
                 \<lparr> getX = 1, getY = 0, getColor = 0, getUserID = 0 \<rparr>,
                 \<lparr> getX = 0, getY = 1, getColor = 0, getUserID = 0 \<rparr>,
                 px5],
       recordNumber = 1 \<rparr> =
     Inr \<lparr> width = 2, height = 2,
           pixels = [\<lparr> getX = 0, getY = 0, getColor = 0, getUserID = 0 \<rparr>,
                     \<lparr> getX = 1, getY = 0, getColor = 0, getUserID = 0 \<rparr>,
                     \<lparr> getX = 0, getY = 1, getColor = 0, getUserID = 0 \<rparr>,
                     px5],
           recordNumber = 1 \<rparr>"
proof -
  have h: "Snapshot_apply [\<lparr> upd_recordNumber = 0, upd_timestamp = 0, upd_pixel = px5 \<rparr>]
     (Snapshot_init 2 2) =
     Inr \<lparr> width = 2, height = 2,
           pixels = [\<lparr> getX = 0, getY = 0, getColor = 0, getUserID = 0 \<rparr>,
                     \<lparr> getX = 1, getY = 0, getColor = 0, getUserID = 0 \<rparr>,
                     \<lparr> getX = 0, getY = 1, getColor = 0, getUserID = 0 \<rparr>,
                     px5],
           recordNumber = 1 \<rparr>"
    by code_simp
  from apply_twice [OF h] h show ?thesis by simp
qed

text \<open>
  C4. Let \<open>r\<close> be the snapshot's \<open>recordNumber\<close> and \<open>r \<le> k \<le> length L\<close>. The
  source's \<^verbatim>\<open>apply\<close> takes no upper bound: it runs to the end of the vector it is
  given, so applying up to \<open>k\<close> is \<^verbatim>\<open>apply\<close> on the first \<open>k\<close> entries of the log.
  Provided the subscript of every update at a position \<open>r \<le> i < k\<close> is inside the
  pixel array (outside it the C++ is undefined), the call succeeds, the pixels are the old ones
  overwritten by exactly the updates at positions \<open>r, r+1, ..., k-1\<close> in that order, a cell
  that none of them addresses keeps its content, a cell holds the pixel of the last of
  them that addresses it, the dimensions and the array length stay, and
  \<open>recordNumber\<close> becomes \<open>k\<close>. The updates are selected by their position in the
  log, which is their sequence number in every log that \<^verbatim>\<open>Place::update\<close> builds.
\<close>

theorem apply_range:
  assumes rk: "recordNumber s \<le> k" "k \<le> length L"
    and inr: "\<forall>i. recordNumber s \<le> i \<and> i < k \<longrightarrow>
                cell_index (width s) (upd_pixel (L ! i)) < length (pixels s)"
  shows "\<exists>s'. Snapshot_apply (take k L) s = Inr s' \<and>
           recordNumber s' = k \<and> width s' = width s \<and> height s' = height s \<and>
           length (pixels s') = length (pixels s) \<and>
           pixels s' = fold (paint (width s)) (drop (recordNumber s) (take k L)) (pixels s) \<and>
           (\<forall>j. (\<forall>i. recordNumber s \<le> i \<and> i < k \<longrightarrow>
                      cell_index (width s) (upd_pixel (L ! i)) \<noteq> j) \<longrightarrow>
                pixels s' ! j = pixels s ! j) \<and>
           (\<forall>i. recordNumber s \<le> i \<and> i < k \<and>
                 (\<forall>i'. i < i' \<and> i' < k \<longrightarrow>
                    cell_index (width s) (upd_pixel (L ! i')) \<noteq>
                    cell_index (width s) (upd_pixel (L ! i))) \<longrightarrow>
                pixels s' ! cell_index (width s) (upd_pixel (L ! i)) = upd_pixel (L ! i))"
proof -
  let ?D = "drop (recordNumber s) (take k L)"
  let ?w = "width s"
  let ?ps = "fold (paint ?w) ?D (pixels s)"
  have setD: "set ?D = {L ! i | i. recordNumber s \<le> i \<and> i < k}"
    using rk by (rule set_drop_take)
  with inr have ok: "\<forall>u \<in> set ?D. cell_index ?w (upd_pixel u) < length (pixels s)"
    by auto
  have loop: "apply_loop (take k L) ?w (recordNumber s) (pixels s) = Inr ?ps"
    by (simp only: apply_loop_write_all write_all_fold [OF ok])
  define s' where "s' = s\<lparr> pixels := ?ps, recordNumber := length (take k L) \<rparr>"
  have res: "Snapshot_apply (take k L) s = Inr s'"
    by (simp add: Snapshot_apply_def loop s'_def)
  have f: "recordNumber s' = k" "width s' = width s" "height s' = height s"
          "pixels s' = ?ps"
    using rk by (simp_all add: s'_def)
  have len: "length (pixels s') = length (pixels s)"
    by (simp add: f fold_paint_length)
  have untouched: "pixels s' ! j = pixels s ! j"
    if "\<forall>i. recordNumber s \<le> i \<and> i < k \<longrightarrow> cell_index ?w (upd_pixel (L ! i)) \<noteq> j" for j
  proof -
    from that setD have "\<forall>u \<in> set ?D. cell_index ?w (upd_pixel u) \<noteq> j" by auto
    then show ?thesis by (simp add: f fold_paint_untouched)
  qed
  have last: "pixels s' ! cell_index ?w (upd_pixel (L ! i)) = upd_pixel (L ! i)"
    if "recordNumber s \<le> i \<and> i < k \<and>
        (\<forall>i'. i < i' \<and> i' < k \<longrightarrow>
           cell_index ?w (upd_pixel (L ! i')) \<noteq> cell_index ?w (upd_pixel (L ! i)))" for i
  proof -
    from that inr have j: "cell_index ?w (upd_pixel (L ! i)) < length (pixels s)" by blast
    from that have i: "recordNumber s \<le> i" "i < k" by blast+
    from that have later: "\<forall>i'. i < i' \<and> i' < k \<longrightarrow>
           cell_index ?w (upd_pixel (L ! i')) \<noteq> cell_index ?w (upd_pixel (L ! i))" by blast
    from fold_paint_range_last [OF rk i j later] show ?thesis by (simp add: f)
  qed
  from res f len untouched last show ?thesis by blast
qed

theorem apply_range_witness:
  "recordNumber (Snapshot_init 2 2) \<le> 2 \<and> 2 \<le> length log59 \<and>
   cell_index (width (Snapshot_init 2 2)) (upd_pixel (log59 ! 0)) < length (pixels (Snapshot_init 2 2)) \<and>
   cell_index (width (Snapshot_init 2 2)) (upd_pixel (log59 ! 1)) < length (pixels (Snapshot_init 2 2)) \<and>
   (\<exists>s'. Snapshot_apply (take 2 log59) (Snapshot_init 2 2) = Inr s' \<and>
         recordNumber s' = 2 \<and> pixels s' ! 3 = px9 \<and>
         pixels s' ! 0 = pixels (Snapshot_init 2 2) ! 0)"
proof -
  let ?s = "Snapshot_init 2 2"
  have h1: "recordNumber ?s \<le> 2" by (simp add: Snapshot_init_def)
  have h2: "2 \<le> length log59" by (simp add: log59_def)
  have c0: "cell_index (width ?s) (upd_pixel (log59 ! 0)) = 3"
    by (simp add: Snapshot_init_def log59_def px5_def cell_index_def)
  have c1: "cell_index (width ?s) (upd_pixel (log59 ! 1)) = 3"
    by (simp add: Snapshot_init_def log59_def px9_def cell_index_def)
  have len: "length (pixels ?s) = 4"
    by (simp add: Snapshot_init_length)
  have cases: "i = 0 \<or> i = 1" if "i < 2" for i :: nat
    using that by auto
  have h3: "\<forall>i. recordNumber ?s \<le> i \<and> i < 2 \<longrightarrow>
              cell_index (width ?s) (upd_pixel (log59 ! i)) < length (pixels ?s)"
  proof (intro allI impI)
    fix i assume "recordNumber ?s \<le> i \<and> i < 2"
    then have "i = 0 \<or> i = 1" by (intro cases) simp
    then show "cell_index (width ?s) (upd_pixel (log59 ! i)) < length (pixels ?s)"
      using c0 c1 len by (elim disjE) simp_all
  qed
  from apply_range [OF h1 h2 h3] obtain s' where
    r: "Snapshot_apply (take 2 log59) ?s = Inr s'" "recordNumber s' = 2" and
    u: "\<And>j. (\<forall>i. recordNumber ?s \<le> i \<and> i < 2 \<longrightarrow>
                  cell_index (width ?s) (upd_pixel (log59 ! i)) \<noteq> j) \<Longrightarrow>
             pixels s' ! j = pixels ?s ! j" and
    l: "\<And>i. recordNumber ?s \<le> i \<and> i < 2 \<and>
                 (\<forall>i'. i < i' \<and> i' < 2 \<longrightarrow>
                    cell_index (width ?s) (upd_pixel (log59 ! i')) \<noteq>
                    cell_index (width ?s) (upd_pixel (log59 ! i))) \<Longrightarrow>
             pixels s' ! cell_index (width ?s) (upd_pixel (log59 ! i)) = upd_pixel (log59 ! i)"
    by blast
  have "pixels s' ! 0 = pixels ?s ! 0"
  proof (rule u, intro allI impI)
    fix i assume "recordNumber ?s \<le> i \<and> i < 2"
    then have "i = 0 \<or> i = 1" by (intro cases) simp
    then show "cell_index (width ?s) (upd_pixel (log59 ! i)) \<noteq> 0"
      using c0 c1 by (elim disjE) simp_all
  qed
  moreover have "pixels s' ! 3 = px9"
  proof -
    have "recordNumber ?s \<le> 1 \<and> (1::nat) < 2 \<and>
          (\<forall>i'. 1 < i' \<and> i' < 2 \<longrightarrow>
             cell_index (width ?s) (upd_pixel (log59 ! i')) \<noteq>
             cell_index (width ?s) (upd_pixel (log59 ! 1)))"
      by (simp add: Snapshot_init_def)
    from l [OF this] have "pixels s' ! 3 = upd_pixel (log59 ! 1)"
      unfolding c1 .
    then show ?thesis by (simp add: log59_def)
  qed
  ultimately show ?thesis
    using r h1 h2 c0 c1 len by auto
qed

section \<open>Claims about Place::update\<close>

text \<open>
  C7. A write whose pixel has \<open>x \<ge> width\<close> or \<open>y \<ge> height\<close> returns \<^verbatim>\<open>false\<close> and
  leaves the whole place as it was: the log, the map of last accepted timestamps (so
  also whether the writer has an entry, and its value) and both snapshots. The source
  returns before it reads the clock or touches any member.
\<close>

theorem update_out_of_bounds:
  assumes "place_width pl \<le> getX p \<or> place_height pl \<le> getY p"
  shows "update_with cd currentTime p pl = (False, pl)"
  using assms by (auto simp: update_with_def)

theorem update_out_of_bounds_witness:
  "(place_width Place_init \<le> getX \<lparr> getX = 1000, getY = 0, getColor = 9, getUserID = 7 \<rparr> \<or>
    place_height Place_init \<le> getY \<lparr> getX = 1000, getY = 0, getColor = 9, getUserID = 7 \<rparr>) \<and>
   update 0 \<lparr> getX = 1000, getY = 0, getColor = 9, getUserID = 7 \<rparr> Place_init =
     (False, Place_init)"
proof -
  have h: "place_width Place_init \<le> getX \<lparr> getX = 1000, getY = 0, getColor = 9, getUserID = 7 \<rparr> \<or>
    place_height Place_init \<le> getY \<lparr> getX = 1000, getY = 0, getColor = 9, getUserID = 7 \<rparr>"
    by (simp add: Place_init_def new_Place_def)
  from update_out_of_bounds [OF h] h show ?thesis by (simp add: update_def)
qed

text \<open>
  C8. In every reachable state the \<open>i\<close>-th update of the log has \<open>recordNumber = i\<close>,
  so the record numbers are \<open>0, 1, 2, ...\<close> without a gap. A call of \<^verbatim>\<open>update\<close> that
  returns \<^verbatim>\<open>true\<close> appends exactly one update, numbered with the length of the log
  before the call; a call that returns \<^verbatim>\<open>false\<close> leaves the log as it is, and so does
  a read: the log only grows, by accepted writes, whatever rejected attempts come in
  between.
\<close>

theorem sequence_numbers:
  assumes "reachable pl"
  shows "map upd_recordNumber (updates pl) = [0 ..< length (updates pl)] \<and>
         (\<forall>i. i < length (updates pl) \<longrightarrow> upd_recordNumber (updates pl ! i) = i) \<and>
         (\<forall>cd t p. (fst (update_with cd t p pl) \<longrightarrow>
                      updates (snd (update_with cd t p pl)) =
                        updates pl @ [\<lparr> upd_recordNumber = length (updates pl),
                                         upd_timestamp = t, upd_pixel = p \<rparr>]) \<and>
                   (\<not> fst (update_with cd t p pl) \<longrightarrow>
                      updates (snd (update_with cd t p pl)) = updates pl)) \<and>
         (\<forall>thr s pl'. getCurrentState_with thr pl = Inr (s, pl') \<longrightarrow> updates pl' = updates pl)"
proof -
  from assms have inv: "place_inv pl" by (rule reachable_inv)
  then have m: "map upd_recordNumber (updates pl) = [0 ..< length (updates pl)]"
    by (simp add: place_inv_def)
  have nth: "upd_recordNumber (updates pl ! i) = i" if "i < length (updates pl)" for i
  proof -
    from that have "upd_recordNumber (updates pl ! i) = map upd_recordNumber (updates pl) ! i"
      by simp
    also have "\<dots> = i" using that by (simp only: m nth_upt)
    finally show ?thesis .
  qed
  have w1: "updates (snd (update_with cd t p pl)) =
                updates pl @ [\<lparr> upd_recordNumber = length (updates pl),
                                 upd_timestamp = t, upd_pixel = p \<rparr>]"
    if "fst (update_with cd t p pl)" for cd t p
    using update_with_cases [of cd t p pl] that by auto
  have w2: "updates (snd (update_with cd t p pl)) = updates pl"
    if "\<not> fst (update_with cd t p pl)" for cd t p
    using update_with_cases [of cd t p pl] that by auto
  have r: "updates pl' = updates pl" if "getCurrentState_with thr pl = Inr (s, pl')" for thr s pl'
  proof -
    from place_inv_naive [OF inv] obtain s0 where n: "naive_read pl = Inr s0" ..
    from getCurrentState_naive [OF inv n, of thr] that show ?thesis by auto
  qed
  show ?thesis
    by (intro conjI allI impI; (fact m | erule nth | erule w1 | erule w2 | erule r))
qed

theorem sequence_numbers_witness:
  "reachable place2 \<and> map upd_recordNumber (updates place2) = [0, 1] \<and>
   upd_recordNumber (updates place2 ! 1) = 1"
proof -
  have l: "length (updates place2) = 2" by (simp add: updates_place2)
  have u: "[0 ..< 2] = [0, Suc 0]" by (simp add: upt_rec)
  from sequence_numbers [OF reachable_place2] have
    "map upd_recordNumber (updates place2) = [0 ..< length (updates place2)]"
    by blast
  then show ?thesis
    using reachable_place2 by (simp add: l u) (simp add: updates_place2)
qed

section \<open>Claims about Place::getCurrentState\<close>

text \<open>
  C1. In every state that a place reaches by any sequence of writes (accepted or not)
  and earlier reads, and for every republish threshold \<open>thr\<close> (the earlier reads may have
  used any thresholds too), \<^verbatim>\<open>getCurrentState\<close> returns a snapshot \<open>s\<close> such that:
  \<open>s\<close> is exactly what the naive reader returns (a blank snapshot caught up with the
  whole log); the read leaves the log as it is; \<open>recordNumber s\<close> is the length of the
  log; a cell that no update of the log addresses holds the blank pixel of its
  coordinates, colour 0; and a cell holds the pixel of the last update of the log that
  addresses it. The call runs as one step here, so the log at the call is the log
  throughout.
\<close>

theorem read_is_naive:
  assumes "reachable pl"
  shows "\<exists>s pl'. getCurrentState_with thr pl = Inr (s, pl') \<and>
           naive_read pl = Inr s \<and>
           updates pl' = updates pl \<and>
           recordNumber s = length (updates pl) \<and>
           width s = place_width pl \<and> height s = place_height pl \<and>
           length (pixels s) = unat (place_width pl) * unat (place_height pl) \<and>
           (\<forall>j. j < unat (place_width pl) * unat (place_height pl) \<and>
                (\<forall>i. i < length (updates pl) \<longrightarrow>
                   cell_index (place_width pl) (upd_pixel (updates pl ! i)) \<noteq> j) \<longrightarrow>
                pixels s ! j =
                  \<lparr> getX = of_nat (j mod unat (place_width pl)),
                    getY = of_nat (j div unat (place_width pl)),
                    getColor = 0, getUserID = defaultColor \<rparr>) \<and>
           (\<forall>i. i < length (updates pl) \<and>
                (\<forall>i'. i < i' \<and> i' < length (updates pl) \<longrightarrow>
                   cell_index (place_width pl) (upd_pixel (updates pl ! i')) \<noteq>
                   cell_index (place_width pl) (upd_pixel (updates pl ! i))) \<longrightarrow>
                pixels s ! cell_index (place_width pl) (upd_pixel (updates pl ! i)) =
                  upd_pixel (updates pl ! i))"
proof -
  let ?w = "place_width pl" and ?h = "place_height pl" and ?us = "updates pl"
  let ?s0 = "Snapshot_init ?w ?h"
  from assms have inv: "place_inv pl" by (rule reachable_inv)
  then have grid: "\<forall>u \<in> set ?us. in_grid ?w ?h (upd_pixel u)"
    by (simp add: place_inv_def)
  define s where "s = ?s0\<lparr> pixels := fold (paint ?w) ?us (pixels ?s0), recordNumber := length ?us \<rparr>"
  have n: "naive_read pl = Inr s"
    by (simp add: naive_read_def naive_apply [OF grid] s_def)
  define pl' where "pl' = pl\<lparr> workingSnapshot := s,
       recentSnapshot := (if length ?us > recordNumber (recentSnapshot pl) + thr
                          then s else recentSnapshot pl) \<rparr>"
  have g: "getCurrentState_with thr pl = Inr (s, pl')"
    by (simp add: getCurrentState_naive [OF inv n] pl'_def)
  have f: "updates pl' = ?us" "recordNumber s = length ?us" "width s = ?w" "height s = ?h"
    "pixels s = fold (paint ?w) ?us (pixels ?s0)"
    by (simp_all add: pl'_def s_def Snapshot_init_def)
  have len: "length (pixels s) = unat ?w * unat ?h"
    by (simp add: f fold_paint_length Snapshot_init_length)
  have blank: "pixels s ! j = \<lparr> getX = of_nat (j mod unat ?w), getY = of_nat (j div unat ?w),
                                getColor = 0, getUserID = defaultColor \<rparr>"
    if "j < unat ?w * unat ?h \<and>
        (\<forall>i. i < length ?us \<longrightarrow> cell_index ?w (upd_pixel (?us ! i)) \<noteq> j)" for j
  proof -
    from that have "\<forall>u \<in> set ?us. cell_index ?w (upd_pixel u) \<noteq> j"
      by (auto simp: in_set_conv_nth)
    with that show ?thesis
      by (simp add: f fold_paint_untouched blank_nth)
  qed
  have last: "pixels s ! cell_index ?w (upd_pixel (?us ! i)) = upd_pixel (?us ! i)"
    if "i < length ?us \<and>
        (\<forall>i'. i < i' \<and> i' < length ?us \<longrightarrow>
           cell_index ?w (upd_pixel (?us ! i')) \<noteq> cell_index ?w (upd_pixel (?us ! i)))" for i
  proof -
    from that have i: "i < length ?us" by simp
    with grid have "cell_index ?w (upd_pixel (?us ! i)) < length (pixels ?s0)"
      by (simp add: Snapshot_init_length in_grid_index)
    moreover from that have "\<forall>i'. i < i' \<and> i' < length ?us \<longrightarrow>
           cell_index ?w (upd_pixel (?us ! i')) \<noteq> cell_index ?w (upd_pixel (?us ! i))"
      by simp
    ultimately have "fold (paint ?w) (drop 0 (take (length ?us) ?us)) (pixels ?s0) !
        cell_index ?w (upd_pixel (?us ! i)) = upd_pixel (?us ! i)"
      using i by (intro fold_paint_range_last) simp_all
    then show ?thesis by (simp add: f)
  qed
  show ?thesis
    by (rule exI [of _ s], rule exI [of _ pl'])
       (intro conjI allI impI; (fact g n f(1-4) len | erule blank | erule last))
qed

theorem read_is_naive_witness:
  "reachable place2 \<and>
   (\<exists>s pl'. getCurrentState place2 = Inr (s, pl') \<and> naive_read place2 = Inr s \<and>
            updates pl' = updates place2 \<and> recordNumber s = 2 \<and>
            pixels s ! 4 = px9)"
proof -
  from read_is_naive [OF reachable_place2, of 100] obtain s pl' where
    g: "getCurrentState_with 100 place2 = Inr (s, pl')" "naive_read place2 = Inr s"
       "updates pl' = updates place2" "recordNumber s = length (updates place2)"
    and l: "\<And>i. i < length (updates place2) \<and>
                (\<forall>i'. i < i' \<and> i' < length (updates place2) \<longrightarrow>
                   cell_index (place_width place2) (upd_pixel (updates place2 ! i')) \<noteq>
                   cell_index (place_width place2) (upd_pixel (updates place2 ! i))) \<Longrightarrow>
                pixels s ! cell_index (place_width place2) (upd_pixel (updates place2 ! i)) =
                  upd_pixel (updates place2 ! i)"
    by blast
  have c: "cell_index (place_width place2) (upd_pixel (updates place2 ! 1)) = 4"
    by code_simp
  have "1 < length (updates place2) \<and>
        (\<forall>i'. 1 < i' \<and> i' < length (updates place2) \<longrightarrow>
           cell_index (place_width place2) (upd_pixel (updates place2 ! i')) \<noteq>
           cell_index (place_width place2) (upd_pixel (updates place2 ! 1)))"
    by (simp add: updates_place2)
  from l [OF this] have "pixels s ! 4 = upd_pixel (updates place2 ! 1)"
    unfolding c .
  then have "pixels s ! 4 = px9" by (simp add: updates_place2)
  with g reachable_place2 show ?thesis
    by (auto simp: getCurrentState_def updates_place2)
qed


text \<open>
  The same with the two locked blocks of \<^verbatim>\<open>getCurrentState\<close> apart: whatever other
  threads do to the place after the exclusive block has handed out the recent snapshot,
  catching that snapshot up under the shared lock gives what the naive reader returns
  for the log as it is then, with \<open>recordNumber\<close> the length of that log.
\<close>

lemma read_interleaved:
  assumes re: "reachable pl" and r: "refresh_with thr pl = Inr (recentCopy, pl1)"
    and ev: "evolves pl1 pl2"
  shows "\<exists>s. Snapshot_apply (updates pl2) recentCopy = Inr s \<and> naive_read pl2 = Inr s \<and>
             recordNumber s = length (updates pl2)"
proof -
  let ?w = "place_width pl" and ?h = "place_height pl"
  from re have inv: "place_inv pl" by (rule reachable_inv)
  from place_inv_naive [OF inv] obtain s0 where n0: "naive_read pl = Inr s0" ..
  then have c0: "caught_up ?w ?h (updates pl) s0"
    by (simp add: naive_read_def caught_up_whole(1))
  from inv have cr: "caught_up ?w ?h (updates pl) (recentSnapshot pl)"
    by (simp add: place_inv_def)
  from refresh_naive [OF inv n0, of thr] r
  have rc: "recentCopy = (if length (updates pl) > recordNumber (recentSnapshot pl) + thr
                          then s0 else recentSnapshot pl)"
    and p1: "place_width pl1 = ?w" "place_height pl1 = ?h" "updates pl1 = updates pl"
    by auto
  from rc c0 cr have c: "caught_up ?w ?h (updates pl) recentCopy" by simp
  from evolves_log [OF ev] p1 obtain vs where
    d: "place_width pl2 = ?w" "place_height pl2 = ?h" and u: "updates pl2 = updates pl @ vs"
    by auto
  from c have c2: "caught_up ?w ?h (updates pl2) recentCopy"
    unfolding u by (rule caught_up_append)
  from refresh_is_read_step [OF inv r] obtain s' where "getCurrentState_with thr pl = Inr (s', pl1)" ..
  with re have "reachable pl1" by (rule reachable.read)
  with ev have "reachable pl2" by (rule evolves_reachable)
  from place_inv_naive [OF reachable_inv [OF this]] obtain s where n: "naive_read pl2 = Inr s" ..
  then have n': "Snapshot_apply (updates pl2) (Snapshot_init ?w ?h) = Inr s"
    by (simp add: naive_read_def d)
  have "Snapshot_apply (updates pl2) recentCopy = Inr s"
    by (simp add: caught_up_apply [OF c2] n')
  with n caught_up_whole(2) [OF n'] show ?thesis by blast
qed

text \<open>
  C10. In every reachable state every update of the log has a pixel with
  \<open>x < width\<close> and \<open>y < height\<close> of the place, the subscript \<^verbatim>\<open>getY() * width + getX()\<close>
  computed for it (in \<^verbatim>\<open>uint64_t\<close>) is below \<open>width * height\<close>, hence \<^verbatim>\<open>apply\<close> on
  any snapshot of the place's width whose pixel array has \<open>width * height\<close> cells
  never indexes out of range; the working and the recent snapshot are such
  snapshots.
\<close>

theorem log_in_bounds:
  assumes "reachable pl"
  shows "(\<forall>u \<in> set (updates pl).
            getX (upd_pixel u) < place_width pl \<and> getY (upd_pixel u) < place_height pl \<and>
            cell_index (place_width pl) (upd_pixel u) <
              unat (place_width pl) * unat (place_height pl)) \<and>
         (\<forall>s. width s = place_width pl \<and>
               length (pixels s) = unat (place_width pl) * unat (place_height pl) \<longrightarrow>
               (\<exists>s'. Snapshot_apply (updates pl) s = Inr s')) \<and>
         width (workingSnapshot pl) = place_width pl \<and>
         length (pixels (workingSnapshot pl)) = unat (place_width pl) * unat (place_height pl) \<and>
         width (recentSnapshot pl) = place_width pl \<and>
         length (pixels (recentSnapshot pl)) = unat (place_width pl) * unat (place_height pl)"
proof -
  let ?w = "place_width pl" and ?h = "place_height pl" and ?us = "updates pl"
  from assms have inv: "place_inv pl" by (rule reachable_inv)
  then have grid: "\<forall>u \<in> set ?us. in_grid ?w ?h (upd_pixel u)"
    and cw: "caught_up ?w ?h ?us (workingSnapshot pl)"
    and cr: "caught_up ?w ?h ?us (recentSnapshot pl)"
    by (simp_all add: place_inv_def)
  have a: "\<forall>u \<in> set ?us. getX (upd_pixel u) < ?w \<and> getY (upd_pixel u) < ?h \<and>
            cell_index ?w (upd_pixel u) < unat ?w * unat ?h"
    using grid by (auto simp: in_grid_def cell_index_bound)
  have b: "\<exists>s'. Snapshot_apply ?us s = Inr s'"
    if "width s = ?w \<and> length (pixels s) = unat ?w * unat ?h" for s
  proof -
    from a that have "\<forall>u \<in> set (drop (recordNumber s) ?us).
        cell_index (width s) (upd_pixel u) < length (pixels s)"
      by (auto dest: in_set_dropD)
    from write_all_fold [OF this] show ?thesis
      by (simp add: Snapshot_apply_Inr)
  qed
  show ?thesis
    by (intro conjI allI impI;
        (fact a caught_up_fields(1,5) [OF cw] caught_up_fields(1,5) [OF cr] | erule b))
qed

theorem log_in_bounds_witness:
  "reachable place2 \<and>
   getX (upd_pixel (updates place2 ! 1)) < place_width place2 \<and>
   getY (upd_pixel (updates place2 ! 1)) < place_height place2 \<and>
   cell_index (place_width place2) (upd_pixel (updates place2 ! 1)) < 9 \<and>
   length (pixels (workingSnapshot place2)) = 9"
proof -
  have m: "updates place2 ! 1 \<in> set (updates place2)"
    by (simp add: updates_place2)
  have d: "unat (place_width place2) * unat (place_height place2) = 9"
    by code_simp
  from log_in_bounds [OF reachable_place2] m d reachable_place2 show ?thesis
    by auto
qed

text \<open>
  C2, as the code has it. In every reachable state the exclusive-lock block of
  \<^verbatim>\<open>getCurrentState\<close> first catches the working snapshot up to the end of the log;
  the recent snapshot, which is never ahead of the log, is then replaced by a copy of the
  working snapshot exactly when the working snapshot is more than 100 updates ahead of
  it (\<^verbatim>\<open>workingSnapshot.recordNumber > recentSnapshot->recordNumber + 100\<close>, that is, at
  least 101 ahead), and is left as it is when the gap is 100 or less. The source's own
  comment says the recent snapshot is some value from within the last 100 updates,
  which is this comparison. The 100 is a literal of the source, not a setting.
\<close>

theorem refresh_republish:
  assumes "reachable pl"
  shows "\<exists>ws. Snapshot_apply (updates pl) (workingSnapshot pl) = Inr ws \<and>
           recordNumber ws = length (updates pl) \<and>
           recordNumber (recentSnapshot pl) \<le> length (updates pl) \<and>
           (100 < recordNumber ws - recordNumber (recentSnapshot pl) \<longrightarrow>
              refresh pl = Inr (ws, pl\<lparr> workingSnapshot := ws, recentSnapshot := ws \<rparr>)) \<and>
           (recordNumber ws - recordNumber (recentSnapshot pl) \<le> 100 \<longrightarrow>
              refresh pl = Inr (recentSnapshot pl, pl\<lparr> workingSnapshot := ws \<rparr>))"
proof -
  let ?w = "place_width pl" and ?h = "place_height pl" and ?us = "updates pl"
  from assms have inv: "place_inv pl" by (rule reachable_inv)
  then have cw: "caught_up ?w ?h ?us (workingSnapshot pl)"
    and cr: "caught_up ?w ?h ?us (recentSnapshot pl)"
    by (simp_all add: place_inv_def)
  from place_inv_naive [OF inv] obtain ws where n: "naive_read pl = Inr ws" ..
  then have n': "Snapshot_apply ?us (Snapshot_init ?w ?h) = Inr ws"
    by (simp add: naive_read_def)
  have a: "Snapshot_apply ?us (workingSnapshot pl) = Inr ws"
    by (simp add: caught_up_apply [OF cw] n')
  have r: "recordNumber ws = length ?us"
    by (rule caught_up_whole(2) [OF n'])
  have le: "recordNumber (recentSnapshot pl) \<le> length ?us"
    by (rule caught_up_fields(3) [OF cr])
  have yes: "refresh pl = Inr (ws, pl\<lparr> workingSnapshot := ws, recentSnapshot := ws \<rparr>)"
    if "100 < recordNumber ws - recordNumber (recentSnapshot pl)"
    using that by (simp add: refresh_def refresh_with_def a)
  have no: "refresh pl = Inr (recentSnapshot pl, pl\<lparr> workingSnapshot := ws \<rparr>)"
    if "recordNumber ws - recordNumber (recentSnapshot pl) \<le> 100"
    using that by (simp add: refresh_def refresh_with_def a)
  show ?thesis
    by (rule exI [of _ ws]) (intro conjI impI; (fact a r le | erule yes | erule no))
qed

theorem refresh_republish_witness:
  "reachable place100 \<and>
   (\<exists>ws. Snapshot_apply (updates place100) (workingSnapshot place100) = Inr ws \<and>
         recordNumber ws = 100 \<and>
         refresh place100 = Inr (recentSnapshot place100, place100\<lparr> workingSnapshot := ws \<rparr>))"
proof -
  from refresh_republish [OF reachable_place100] obtain ws where
    a: "Snapshot_apply (updates place100) (workingSnapshot place100) = Inr ws"
       "recordNumber ws = length (updates place100)"
    and no: "recordNumber ws - recordNumber (recentSnapshot place100) \<le> 100 \<Longrightarrow>
       refresh place100 = Inr (recentSnapshot place100, place100\<lparr> workingSnapshot := ws \<rparr>)"
    by blast
  have l: "length (updates place100) = 100"
    by (simp add: updates_place100)
  from a(2) l have "recordNumber ws - recordNumber (recentSnapshot place100) \<le> 100"
    by simp
  from no [OF this] a l reachable_place100 show ?thesis by auto
qed

text \<open>
  The claim puts the replacement at a gap of 100 or more. With exactly 100 updates in the
  log and a recent snapshot at 0 the gap is 100, the block succeeds, and the recent
  snapshot is not replaced: it stays the blank snapshot, which differs from the working
  snapshot.
\<close>

theorem threshold_counterexample:
  "\<not> isl (refresh place100) \<and>
   recordNumber (workingSnapshot (snd (projr (refresh place100)))) -
     recordNumber (recentSnapshot place100) = 100 \<and>
   recentSnapshot (snd (projr (refresh place100))) = recentSnapshot place100 \<and>
   recentSnapshot (snd (projr (refresh place100))) \<noteq>
     workingSnapshot (snd (projr (refresh place100)))"
  by (simp add: refresh_place100 snapshots_place100) (simp add: Snapshot_init_def)

section \<open>Claims about admission and the outcome of a write\<close>

text \<open>
  C5. Admission by the rate limiter, which \<^verbatim>\<open>update\<close> reaches for a pixel inside the
  grid, at a clock reading that is at least the cooldown (every reading of a real
  clock: the cooldown is a few seconds or minutes past the zero reading). A writer with
  no entry is admitted and gets an entry holding the clock reading. A writer with an
  entry \<open>prev\<close> is rejected, the place left exactly as it was, when
  \<open>now - prev < cooldown\<close> over the integers, and is otherwise admitted with the entry
  set to the clock reading; an admitted write appends one update to the log. A
  rejected attempt changes neither the length of the log nor the writer's entry.
\<close>

theorem admission:
  assumes b: "getX p < place_width pl" "getY p < place_height pl"
    and c: "unat cd \<le> unat now"
  shows "(mostRecentUpdatesPerUser pl (getUserID p) = None \<longrightarrow>
            update_with cd now p pl =
              (True, pl\<lparr> mostRecentUpdatesPerUser :=
                           (mostRecentUpdatesPerUser pl)(getUserID p \<mapsto> now),
                         updates := updates pl @
                           [\<lparr> upd_recordNumber = length (updates pl),
                              upd_timestamp = now, upd_pixel = p \<rparr>] \<rparr>)) \<and>
         (\<forall>prev. mostRecentUpdatesPerUser pl (getUserID p) = Some prev \<longrightarrow>
            (uint now - uint prev < uint cd \<longrightarrow>
               update_with cd now p pl = (False, pl)) \<and>
            (\<not> uint now - uint prev < uint cd \<longrightarrow>
               update_with cd now p pl =
                 (True, pl\<lparr> mostRecentUpdatesPerUser :=
                              (mostRecentUpdatesPerUser pl)(getUserID p \<mapsto> now),
                            updates := updates pl @
                              [\<lparr> upd_recordNumber = length (updates pl),
                                 upd_timestamp = now, upd_pixel = p \<rparr>] \<rparr>))) \<and>
         (\<not> fst (update_with cd now p pl) \<longrightarrow>
            length (updates (snd (update_with cd now p pl))) = length (updates pl) \<and>
            mostRecentUpdatesPerUser (snd (update_with cd now p pl)) (getUserID p) =
              mostRecentUpdatesPerUser pl (getUserID p)) \<and>
         (fst (update_with cd now p pl) \<longrightarrow>
            mostRecentUpdatesPerUser (snd (update_with cd now p pl)) (getUserID p) = Some now)"
proof -
  have i: "uint now - uint prev < uint cd \<longleftrightarrow> unat now < unat prev + unat cd" for prev :: u64
  proof -
    have "0 \<le> uint now" "0 \<le> uint prev" "0 \<le> uint cd" by simp_all
    then show ?thesis unfolding unat_eq_nat_uint by arith
  qed
  have first: "update_with cd now p pl =
      (True, pl\<lparr> mostRecentUpdatesPerUser := (mostRecentUpdatesPerUser pl)(getUserID p \<mapsto> now),
                 updates := updates pl @
                   [\<lparr> upd_recordNumber = length (updates pl), upd_timestamp = now, upd_pixel = p \<rparr>] \<rparr>)"
    if "mostRecentUpdatesPerUser pl (getUserID p) = None"
    using that by (rule update_with_first [OF b])
  have again: "(uint now - uint prev < uint cd \<longrightarrow> update_with cd now p pl = (False, pl)) \<and>
      (\<not> uint now - uint prev < uint cd \<longrightarrow>
         update_with cd now p pl =
           (True, pl\<lparr> mostRecentUpdatesPerUser := (mostRecentUpdatesPerUser pl)(getUserID p \<mapsto> now),
                      updates := updates pl @
                        [\<lparr> upd_recordNumber = length (updates pl), upd_timestamp = now, upd_pixel = p \<rparr>] \<rparr>))"
    if "mostRecentUpdatesPerUser pl (getUserID p) = Some prev" for prev
    by (simp only: admission_no_wrap [OF b that c] i) simp
  have rej: "length (updates (snd (update_with cd now p pl))) = length (updates pl) \<and>
      mostRecentUpdatesPerUser (snd (update_with cd now p pl)) (getUserID p) =
        mostRecentUpdatesPerUser pl (getUserID p)"
    if "\<not> fst (update_with cd now p pl)"
    using update_with_cases [of cd now p pl] that by auto
  have acc: "mostRecentUpdatesPerUser (snd (update_with cd now p pl)) (getUserID p) = Some now"
    if "fst (update_with cd now p pl)"
    using update_with_cases [of cd now p pl] that by auto
  show ?thesis
    by (intro conjI allI impI; (erule first | erule again [THEN conjunct1, THEN mp], assumption
          | erule again [THEN conjunct2, THEN mp], assumption | erule rej [THEN conjunct1]
          | erule rej [THEN conjunct2] | erule acc))
qed

theorem admission_witness:
  "getX px9 < place_width place_a \<and> getY px9 < place_height place_a \<and>
   mostRecentUpdatesPerUser place_a (getUserID px9) = Some 10000000 \<and>
   unat cooldown \<le> unat (11000000 :: u64) \<and>
   uint (11000000 :: u64) - uint (10000000 :: u64) < uint cooldown \<and>
   update 11000000 px9 place_a = (False, place_a) \<and>
   unat cooldown \<le> unat (15000000 :: u64) \<and>
   \<not> uint (15000000 :: u64) - uint (10000000 :: u64) < uint cooldown \<and>
   fst (update 15000000 px9 place_a) \<and>
   mostRecentUpdatesPerUser (snd (update 15000000 px9 place_a)) (getUserID px9) = Some 15000000"
proof -
  have b: "getX px9 < place_width place_a" "getY px9 < place_height place_a"
    by (simp_all add: place_a_facts px9_def word_less_nat_alt)
  have m: "mostRecentUpdatesPerUser place_a (getUserID px9) = Some 10000000"
    by (simp add: place_a_facts px9_def)
  have c1: "unat cooldown \<le> unat (11000000 :: u64)"
    and c2: "unat cooldown \<le> unat (15000000 :: u64)"
    by (simp_all add: cooldown_def)
  have d1: "uint (11000000 :: u64) - uint (10000000 :: u64) < uint cooldown"
    and d2: "\<not> uint (15000000 :: u64) - uint (10000000 :: u64) < uint cooldown"
    by (simp_all add: cooldown_def)
  from admission [OF b c1] m d1
  have r: "update_with cooldown 11000000 px9 place_a = (False, place_a)"
    by blast
  from admission [OF b c2] m d2
  have a: "update_with cooldown 15000000 px9 place_a =
      (True, place_a\<lparr> mostRecentUpdatesPerUser :=
                           (mostRecentUpdatesPerUser place_a)(getUserID px9 \<mapsto> 15000000),
                         updates := updates place_a @
                           [\<lparr> upd_recordNumber = length (updates place_a),
                              upd_timestamp = 15000000, upd_pixel = px9 \<rparr>] \<rparr>)"
    by blast
  from a have a': "fst (update 15000000 px9 place_a)"
    "mostRecentUpdatesPerUser (snd (update 15000000 px9 place_a)) (getUserID px9) = Some 15000000"
    by (simp_all add: update_def)
  from r have r': "update 11000000 px9 place_a = (False, place_a)"
    by (simp add: update_def)
  from b m c1 d1 r' c2 d2 a' show ?thesis by (intro conjI)
qed

text \<open>
  The bound on the clock reading is needed: below the cooldown the subtraction
  \<^verbatim>\<open>currentTime - 5 * 1'000'000\<close> is negative and its conversion to \<^verbatim>\<open>uint64_t\<close> for the
  comparison wraps around, so a writer who wrote at reading 0 is admitted again at
  reading 1000000.
\<close>

lemma cooldown_wraps_at_small_clock:
  "fst (update 0 px5 Place_init) \<and>
   mostRecentUpdatesPerUser (snd (update 0 px5 Place_init)) (getUserID px9) = Some 0 \<and>
   unat (1000000 :: u64) < unat (0 :: u64) + unat cooldown \<and>
   fst (update 1000000 px9 (snd (update 0 px5 Place_init))) \<and>
   length (updates (snd (update 1000000 px9 (snd (update 0 px5 Place_init))))) = 2 \<and>
   mostRecentUpdatesPerUser (snd (update 1000000 px9 (snd (update 0 px5 Place_init)))) (getUserID px9) =
     Some 1000000"
  by (simp add: update_def update_with_def cooldown_def Place_init_def new_Place_def px5_def px9_def
        word_le_nat_alt word_less_nat_alt)

text \<open>
  C9, as the code has it. \<^verbatim>\<open>update\<close> returns a \<^verbatim>\<open>bool\<close>. It is \<^verbatim>\<open>true\<close> exactly when the
  pixel is inside the grid and the writer has no entry or passes the cooldown test; then
  the writer's timestamp is set to the clock reading and one update, numbered with the
  length of the log, is appended, and nothing else changes. Otherwise it is \<^verbatim>\<open>false\<close> and
  the place is left exactly as it was. So a write is all or nothing and acceptance and
  rejection exclude each other; the result carries no sequence number and does not say
  which of the two checks rejected.
\<close>

theorem update_outcomes:
  "(fst (update_with cd now p pl) \<longleftrightarrow>
      getX p < place_width pl \<and> getY p < place_height pl \<and>
      (\<forall>prev. mostRecentUpdatesPerUser pl (getUserID p) = Some prev \<longrightarrow> \<not> now - cd < prev)) \<and>
   (\<not> fst (update_with cd now p pl) \<longrightarrow> snd (update_with cd now p pl) = pl) \<and>
   (fst (update_with cd now p pl) \<longrightarrow>
      snd (update_with cd now p pl) =
        pl\<lparr> mostRecentUpdatesPerUser := (mostRecentUpdatesPerUser pl)(getUserID p \<mapsto> now),
            updates := updates pl @
              [\<lparr> upd_recordNumber = length (updates pl), upd_timestamp = now, upd_pixel = p \<rparr>] \<rparr>)"
proof (cases "getX p < place_width pl \<and> getY p < place_height pl")
  case False
  then have "update_with cd now p pl = (False, pl)"
    by (auto simp: update_with_def not_less)
  with False show ?thesis by auto
next
  case True
  then have b: "getX p < place_width pl" "getY p < place_height pl" by simp_all
  show ?thesis
  proof (cases "mostRecentUpdatesPerUser pl (getUserID p)")
    case None
    from update_with_first [OF b None, of cd now] None b show ?thesis by simp
  next
    case (Some prev)
    from update_with_again [OF b Some, of cd now] Some b show ?thesis by simp
  qed
qed

theorem update_outcomes_witness:
  "\<not> fst (update 11000000 px9 place_a) \<and> snd (update 11000000 px9 place_a) = place_a \<and>
   fst (update 15000000 px9 place_a) \<and>
   updates (snd (update 15000000 px9 place_a)) =
     [\<lparr> upd_recordNumber = 0, upd_timestamp = 10000000, upd_pixel = px5 \<rparr>,
      \<lparr> upd_recordNumber = 1, upd_timestamp = 15000000, upd_pixel = px9 \<rparr>]"
proof -
  have r: "\<not> fst (update_with cooldown 11000000 px9 place_a)"
    using update_outcomes [of cooldown 11000000 px9 place_a]
    by (simp add: place_a_facts px9_def cooldown_def word_less_nat_alt)
  have a: "fst (update_with cooldown 15000000 px9 place_a)"
    using update_outcomes [of cooldown 15000000 px9 place_a]
    by (simp add: place_a_facts px9_def cooldown_def word_less_nat_alt)
  from update_outcomes [of cooldown 11000000 px9 place_a] r
  have r': "snd (update_with cooldown 11000000 px9 place_a) = place_a" by blast
  from update_outcomes [of cooldown 15000000 px9 place_a] a
  have a': "snd (update_with cooldown 15000000 px9 place_a) =
        place_a\<lparr> mostRecentUpdatesPerUser := (mostRecentUpdatesPerUser place_a)(getUserID px9 \<mapsto> 15000000),
            updates := updates place_a @
              [\<lparr> upd_recordNumber = length (updates place_a), upd_timestamp = 15000000, upd_pixel = px9 \<rparr>] \<rparr>"
    by blast
  from r r' a a' show ?thesis
    by (simp add: update_def place_a_facts)
qed

text \<open>
  The claim has three distinguishable outcomes, the accepted one carrying the sequence
  number. In the place below writer 7 is inside the cooldown and the pixel \<open>px_out\<close> is
  outside the grid: both calls return the same pair, \<^verbatim>\<open>false\<close> and the unchanged place.
  And two accepted writes that are numbered 0 and 1 in the log return the same value.
\<close>

theorem rejections_not_distinguished:
  "getX px9 < place_width place_a \<and> getY px9 < place_height place_a \<and>
   mostRecentUpdatesPerUser place_a (getUserID px9) = Some 10000000 \<and>
   unat (11000000 :: u64) < unat (10000000 :: u64) + unat cooldown \<and>
   place_width place_a \<le> getX px_out \<and>
   mostRecentUpdatesPerUser place_a (getUserID px_out) = None \<and>
   update 11000000 px9 place_a = (False, place_a) \<and>
   update 11000000 px_out place_a = (False, place_a) \<and>
   update 11000000 px9 place_a = update 11000000 px_out place_a \<and>
   fst (update 10000000 px5 (new_Place 3 3)) = fst (update 15000000 px9 place_a) \<and>
   upd_recordNumber (last (updates (snd (update 10000000 px5 (new_Place 3 3))))) = 0 \<and>
   upd_recordNumber (last (updates (snd (update 15000000 px9 place_a)))) = 1"
  by (simp add: place_a_facts px9_def px_out_def cooldown_def update_def update_with_def
        word_less_nat_alt word_le_nat_alt)
     (simp add: new_Place_def px5_def word_le_nat_alt)

text \<open>
  C6. The end-to-end scenario on a 3 by 3 place, with clock readings in microseconds (the
  unit the source's comments give for its timestamps), so that one second is 1000000.
  For every cooldown \<open>cd\<close> of more than 1 s and at most 301 s (the 5 minutes of the
  scenario are 300000000; the source's own literal, 5000000, is in the range too) and
  every start \<open>t0\<close> for which neither \<open>t0 + 1 s - cd\<close> falls below zero nor
  \<open>t0 + 301 s\<close> exceeds the 64-bit range: the write of colour 5 to cell (1,1) by writer
  7 at \<open>t0\<close> is accepted and is update 0 of the log; the write of colour 9 one second
  later is rejected although the pixel is inside the grid, and changes nothing; a read
  then shows \<open>recordNumber = 1\<close>, colour 5 in cell (1,1), which is subscript 4, and
  colour 0 in the eight other cells; the write of colour 9 at \<open>t0 + 301 s\<close> is accepted and
  is update 1; a read then shows \<open>recordNumber = 2\<close> and colour 9 in cell (1,1).
\<close>

theorem end_to_end:
  fixes t0 cd :: u64
  assumes "1000000 < unat cd" "unat cd \<le> 301000000"
    and "unat cd \<le> unat t0 + 1000000" "unat t0 + 301000000 < 2 ^ 64"
  shows "\<exists>P1 s1 P2 P3 s3 P4.
      update_with cd t0 px5 (new_Place 3 3) = (True, P1) \<and>
      updates P1 = [\<lparr> upd_recordNumber = 0, upd_timestamp = t0, upd_pixel = px5 \<rparr>] \<and>
      update_with cd (t0 + 1000000) px9 P1 = (False, P1) \<and>
      getX px9 < place_width P1 \<and> getY px9 < place_height P1 \<and>
      getCurrentState P1 = Inr (s1, P2) \<and>
      recordNumber s1 = 1 \<and>
      pixels s1 ! 4 = px5 \<and>
      map getColor (pixels s1) = [0, 0, 0, 0, 5, 0, 0, 0, 0] \<and>
      update_with cd (t0 + 301000000) px9 P2 = (True, P3) \<and>
      updates P3 = [\<lparr> upd_recordNumber = 0, upd_timestamp = t0, upd_pixel = px5 \<rparr>,
                    \<lparr> upd_recordNumber = 1, upd_timestamp = t0 + 301000000, upd_pixel = px9 \<rparr>] \<and>
      getCurrentState P3 = Inr (s3, P4) \<and>
      recordNumber s3 = 2 \<and>
      pixels s3 ! 4 = px9 \<and>
      map getColor (pixels s3) = [0, 0, 0, 0, 9, 0, 0, 0, 0]"
proof -
  note clock = scenario_clock [OF assms]
  let ?u0 = "\<lparr> upd_recordNumber = 0, upd_timestamp = t0, upd_pixel = px5 \<rparr>"
  let ?u1 = "\<lparr> upd_recordNumber = 1, upd_timestamp = t0 + 301000000, upd_pixel = px9 \<rparr>"
  define P1 where "P1 = (new_Place 3 3)\<lparr> mostRecentUpdatesPerUser := [7 \<mapsto> t0], updates := [?u0] \<rparr>"
  have w1: "update_with cd t0 px5 (new_Place 3 3) = (True, P1)"
    by (simp add: update_with_def new_Place_def px5_def P1_def word_le_nat_alt)
  have b1: "getX px9 < place_width P1" "getY px9 < place_height P1"
    by (simp_all add: P1_def new_Place_def px9_def word_less_nat_alt)
  have m1: "mostRecentUpdatesPerUser P1 (getUserID px9) = Some t0"
    by (simp add: P1_def px9_def)
  have w2: "update_with cd (t0 + 1000000) px9 P1 = (False, P1)"
    by (simp add: update_with_again [OF b1 m1] clock)
  have i5: "cell_index 3 px5 = 4" and i9: "cell_index 3 px9 = 4"
    by (simp_all add: cell_index_def px5_def px9_def)
  define s1 where "s1 = (Snapshot_init 3 3)\<lparr> pixels := (pixels (Snapshot_init 3 3))[4 := px5],
                                               recordNumber := 1 \<rparr>"
  define P2 where "P2 = P1\<lparr> workingSnapshot := s1 \<rparr>"
  have a1: "Snapshot_apply [?u0] (Snapshot_init 3 3) = Inr s1"
    by (simp add: Snapshot_apply_def apply_loop_write_all blank33 i5 s1_def)
  have s1f: "recordNumber s1 = 1" "pixels s1 ! 4 = px5"
    "map getColor (pixels s1) = [0, 0, 0, 0, 5, 0, 0, 0, 0]"
    by (simp_all add: s1_def blank33 px5_def)
  have z: "recordNumber (Snapshot_init 3 3) = 0"
    by (simp add: Snapshot_init_def)
  have u1: "updates P1 = [?u0]" by (simp add: P1_def)
  have k1: "workingSnapshot P1 = Snapshot_init 3 3" "recentSnapshot P1 = Snapshot_init 3 3"
    by (simp_all add: P1_def new_Place_def)
  have r1: "getCurrentState P1 = Inr (s1, P2)"
    by (simp add: getCurrentState_def getCurrentState_with_def refresh_with_def
          u1 k1 a1 s1f(1) z P2_def)
  define L where "L = [?u0, ?u1]"
  define P3 where "P3 = P2\<lparr> mostRecentUpdatesPerUser := [7 \<mapsto> t0 + 301000000],
                              updates := [?u0, ?u1] \<rparr>"
  have b2: "getX px9 < place_width P2" "getY px9 < place_height P2"
    using b1 by (simp_all add: P2_def)
  have m2: "mostRecentUpdatesPerUser P2 (getUserID px9) = Some t0"
    using m1 by (simp add: P2_def)
  have w3: "update_with cd (t0 + 301000000) px9 P2 = (True, P3)"
    by (simp add: update_with_again [OF b2 m2] clock)
       (simp add: P3_def P2_def P1_def px9_def)
  define s3 where "s3 = (Snapshot_init 3 3)\<lparr> pixels := (pixels (Snapshot_init 3 3))[4 := px9],
                                               recordNumber := 2 \<rparr>"
  define P4 where "P4 = P3\<lparr> workingSnapshot := s3 \<rparr>"
  have a3: "Snapshot_apply L s1 = Inr s3"
    by (simp add: L_def Snapshot_apply_def apply_loop_write_all blank33 i9 s1_def s3_def)
  have a3': "Snapshot_apply L (Snapshot_init 3 3) = Inr s3"
    by (simp add: L_def Snapshot_apply_def apply_loop_write_all blank33 i5 i9 s3_def)
  have s3f: "recordNumber s3 = 2" "pixels s3 ! 4 = px9"
    "map getColor (pixels s3) = [0, 0, 0, 0, 9, 0, 0, 0, 0]"
    by (simp_all add: s3_def blank33 px9_def)
  have u3': "updates P3 = L" by (simp add: P3_def L_def)
  have u3: "updates P3 = [?u0, ?u1]" by (simp add: P3_def)
  have k3: "workingSnapshot P3 = s1" "recentSnapshot P3 = Snapshot_init 3 3"
    by (simp_all add: P3_def P2_def P1_def new_Place_def)
  have r3: "getCurrentState P3 = Inr (s3, P4)"
    by (simp add: getCurrentState_def getCurrentState_with_def refresh_with_def
          u3' k3 a3 a3' s3f(1) z P4_def)
  show ?thesis
    by (rule exI [of _ P1], rule exI [of _ s1], rule exI [of _ P2], rule exI [of _ P3],
        rule exI [of _ s3], rule exI [of _ P4])
       (intro conjI; fact w1 u1 w2 b1 r1 s1f w3 u3 r3 s3f)
qed

theorem end_to_end_witness:
  "1000000 < unat (300000000 :: u64) \<and> unat (300000000 :: u64) \<le> 301000000 \<and>
   unat (300000000 :: u64) \<le> unat (1700000000000000 :: u64) + 1000000 \<and>
   unat (1700000000000000 :: u64) + 301000000 < 2 ^ 64 \<and>
   (\<exists>P1 s1 P2 P3.
      update_with 300000000 1700000000000000 px5 (new_Place 3 3) = (True, P1) \<and>
      update_with 300000000 (1700000000000000 + 1000000) px9 P1 = (False, P1) \<and>
      getCurrentState P1 = Inr (s1, P2) \<and> recordNumber s1 = 1 \<and> pixels s1 ! 4 = px5 \<and>
      update_with 300000000 (1700000000000000 + 301000000) px9 P2 = (True, P3)) \<and>
   1000000 < unat cooldown \<and> unat cooldown \<le> 301000000 \<and>
   unat cooldown \<le> unat (1700000000000000 :: u64) + 1000000 \<and>
   (\<exists>P1 s1 P2 P3.
      update 1700000000000000 px5 (new_Place 3 3) = (True, P1) \<and>
      update (1700000000000000 + 1000000) px9 P1 = (False, P1) \<and>
      getCurrentState P1 = Inr (s1, P2) \<and> recordNumber s1 = 1 \<and> pixels s1 ! 4 = px5 \<and>
      update (1700000000000000 + 301000000) px9 P2 = (True, P3))"
proof -
  have h1: "1000000 < unat (300000000 :: u64)" and h2: "unat (300000000 :: u64) \<le> 301000000"
    and h3: "unat (300000000 :: u64) \<le> unat (1700000000000000 :: u64) + 1000000"
    and h4: "unat (1700000000000000 :: u64) + 301000000 < 2 ^ 64"
    by simp_all
  have c1: "1000000 < unat cooldown" and c2: "unat cooldown \<le> 301000000"
    and c3: "unat cooldown \<le> unat (1700000000000000 :: u64) + 1000000"
    by (simp_all add: cooldown_def)
  from end_to_end [OF h1 h2 h3 h4] have a: "\<exists>P1 s1 P2 P3.
      update_with 300000000 1700000000000000 px5 (new_Place 3 3) = (True, P1) \<and>
      update_with 300000000 (1700000000000000 + 1000000) px9 P1 = (False, P1) \<and>
      getCurrentState P1 = Inr (s1, P2) \<and> recordNumber s1 = 1 \<and> pixels s1 ! 4 = px5 \<and>
      update_with 300000000 (1700000000000000 + 301000000) px9 P2 = (True, P3)"
    by blast
  from end_to_end [OF c1 c2 c3 h4] have b: "\<exists>P1 s1 P2 P3.
      update 1700000000000000 px5 (new_Place 3 3) = (True, P1) \<and>
      update (1700000000000000 + 1000000) px9 P1 = (False, P1) \<and>
      getCurrentState P1 = Inr (s1, P2) \<and> recordNumber s1 = 1 \<and> pixels s1 ! 4 = px5 \<and>
      update (1700000000000000 + 301000000) px9 P2 = (True, P3)"
    unfolding update_def by blast
  from h1 h2 h3 h4 c1 c2 c3 a b show ?thesis by (intro conjI)
qed

end
